theory Spec2Isabelle
  imports Main "HOL-Library.Sublist" "HOL-Library.AList" "HOL-Library.Multiset"
begin

section \<open>Tab Organizer: snapshot capture, storage, restore, undo and retention\<close>

text \<open>
  A shallow embedding of the session subsystem of the extension:
  \<^verbatim>\<open>utils/sessionManager.js\<close> (popup side: \<open>saveCurrentSession\<close>, \<open>getAllSessions\<close>,
  \<open>validateSession\<close>, \<open>waitForTabs\<close>, \<open>findTabByUrl\<close>, \<open>restoreSession\<close>,
  \<open>cleanupRecoverySessions\<close>, \<open>saveUndoState\<close>, \<open>performUndo\<close>) and the background
  service worker (\<open>cleanupRecoverySessionsInline\<close>, \<open>saveUndoStateInline\<close>,
  \<open>restoreUndoStateInline\<close>, \<open>undoLastActionInline\<close>).

  JavaScript strings are modelled as \<open>string\<close>; one \<open>char\<close> stands for one UTF-16 code
  unit (so only code units below 256 are covered). JavaScript numbers that the code uses as
  identifiers, counts and millisecond clocks are modelled as \<open>int\<close> or \<open>nat\<close>. A rejected
  promise or thrown \<open>Error\<close> is the value \<open>Inl message\<close>.
\<close>

subsection \<open>The browser's data: tabs, windows, groups\<close>

text \<open>The fields of \<open>chrome.tabs.Tab\<close> that the code reads. \<open>None\<close> is \<open>undefined\<close>.\<close>

record tab =
  tab_id :: int
  tab_url :: "string option"
  tab_pendingUrl :: "string option"
  tab_title :: "string option"
  tab_pinned :: bool
  tab_active :: bool
  tab_groupId :: int
  tab_index :: int

text \<open>\<open>chrome.tabs.TAB_ID_NONE\<close>, which the code compares \<open>tab.groupId\<close> with.\<close>

definition TAB_ID_NONE :: int where
  "TAB_ID_NONE = - 1"

text \<open>A \<open>chrome.windows.Window\<close>; \<open>win_tabs\<close> is absent unless the window was populated.\<close>

record window =
  win_id :: int
  win_tabs :: "tab list option"

text \<open>A \<open>chrome.tabGroups.TabGroup\<close>.\<close>

record tabGroup =
  grp_id :: int
  grp_title :: "string option"
  grp_color :: "string option"
  grp_collapsed :: bool

subsection \<open>The persisted data: sessions and undo entries\<close>

text \<open>
  The objects \<open>saveCurrentSession\<close> builds (\<open>tabData\<close>, \<open>windowData\<close>, the group entries
  of \<open>groupMap\<close>, \<open>sessionData\<close>), field by field and in the order of the object literals.
\<close>

record tabData =
  td_url :: string
  td_title :: string
  td_pinned :: bool
  td_active :: bool
  td_originalGroupId :: "int option"

record windowData =
  wd_id :: int
  wd_tabs :: "tabData list"

record groupInfo =
  gi_originalId :: int
  gi_title :: string
  gi_color :: string
  gi_collapsed :: bool
  gi_tabUrls :: "string list"

record sessionData =
  s_id :: string
  s_name :: string
  s_timestamp :: int
  s_windows :: "windowData list"
  s_groups :: "groupInfo list"

text \<open>
  The objects \<open>saveUndoState\<close> and \<open>captureCurrentGroupsInline\<close> build. The background
  variant also records \<open>pinned\<close>; the popup variant does not (\<open>None\<close>).
\<close>

record savedTab =
  st_id :: int
  st_url :: "string option"
  st_title :: "string option"
  st_groupId :: "int option"
  st_index :: int
  st_pinned :: "bool option"

record savedGroup =
  sg_id :: int
  sg_title :: "string option"
  sg_color :: "string option"
  sg_collapsed :: bool
  sg_tabIds :: "int list"

record windowState =
  ws_id :: int
  ws_tabs :: "savedTab list"
  ws_groups :: "savedGroup list"

record undoEntry =
  ue_type :: string
  ue_timestamp :: int
  ue_previousGroups :: "windowState list"

text \<open>
  \<open>chrome.storage.local\<close>: the keys the code uses. \<open>None\<close> is a key that is not set, which
  the code reads as \<open>result.sessions || []\<close>.
\<close>

record storage =
  sessions :: "sessionData list option"
  undoHistory :: "undoEntry list option"
  test_key :: "string option"

subsection \<open>The environment: the browser API as a state machine\<close>

text \<open>
  Every call the code makes to the browser is recorded, in order. The live environment is
  an arbitrary state machine over a state of type \<open>'e\<close>: each primitive maps the current
  state to a response (\<open>Inl message\<close> when the promise rejects) and the next state, so a
  primitive may fail at one call and succeed at the next. The primitives take the arguments
  the code passes, except for constant options (\<open>populate\<close>, \<open>focused\<close>, \<open>active: false\<close>)
  and the \<open>windowId\<close> that restore passes to \<open>chrome.tabs.group\<close>. The contents of
  \<open>chrome.storage.local\<close> are kept by the model itself; the environment only decides
  whether a storage call rejects and what \<open>getBytesInUse\<close> reports.
\<close>

datatype key = K_sessions | K_undoHistory | K_test

datatype call =
    StorageGet key
  | StorageSet key
  | StorageRemove key
  | StorageGetBytesInUse
  | WindowsGetAll
  | WindowsGet int
  | WindowsCreate string
  | TabsCreate int string
  | TabsQuery int
  | TabsUpdatePinned int
  | TabsUpdateActive int
  | TabsGroup "int list"
  | TabsUngroup "int list"
  | TabGroupsGet int
  | TabGroupsUpdate int
  | DateNow
  | SetTimeout nat
  | LoadActiveGroups

text \<open>The calls that change the live window, tab and group hierarchy.\<close>

fun mutating :: "call \<Rightarrow> bool" where
  "mutating (WindowsCreate _) = True"
| "mutating (TabsCreate _ _) = True"
| "mutating (TabsUpdatePinned _) = True"
| "mutating (TabsUpdateActive _) = True"
| "mutating (TabsGroup _) = True"
| "mutating (TabsUngroup _) = True"
| "mutating (TabGroupsUpdate _) = True"
| "mutating _ = False"

fun storage_write :: "call \<Rightarrow> bool" where
  "storage_write (StorageSet _) = True"
| "storage_write (StorageRemove _) = True"
| "storage_write _ = False"

text \<open>
  The parts of a parsed URL that the code reads. The platform's parser (\<open>new URL(url)\<close>)
  is a pure function of the environment: \<open>None\<close> is a \<open>TypeError\<close>.
\<close>

record url_parts =
  hostname :: string
  pathname :: string
  search :: string

record 'e chrome =
  storage_fault :: "call \<Rightarrow> 'e \<Rightarrow> string option \<times> 'e"
  getBytesInUse :: "'e \<Rightarrow> (string + int) \<times> 'e"
  windows_getAll :: "'e \<Rightarrow> (string + window list) \<times> 'e"
  windows_get :: "int \<Rightarrow> 'e \<Rightarrow> (string + window) \<times> 'e"
  windows_create :: "string \<Rightarrow> 'e \<Rightarrow> (string + window) \<times> 'e"
  tabs_create :: "int \<Rightarrow> string \<Rightarrow> 'e \<Rightarrow> (string + tab) \<times> 'e"
  tabs_query :: "int \<Rightarrow> 'e \<Rightarrow> (string + tab list) \<times> 'e"
  tabs_update_pinned :: "int \<Rightarrow> 'e \<Rightarrow> (string + unit) \<times> 'e"
  tabs_update_active :: "int \<Rightarrow> 'e \<Rightarrow> (string + unit) \<times> 'e"
  tabs_group :: "int list \<Rightarrow> 'e \<Rightarrow> (string + int) \<times> 'e"
  tabs_ungroup :: "int list \<Rightarrow> 'e \<Rightarrow> (string + unit) \<times> 'e"
  tabGroups_get :: "int \<Rightarrow> 'e \<Rightarrow> (string + tabGroup) \<times> 'e"
  tabGroups_update :: "int \<Rightarrow> string option \<Rightarrow> string option \<Rightarrow> bool \<Rightarrow> 'e \<Rightarrow> (string + unit) \<times> 'e"
  Date_now :: "'e \<Rightarrow> int \<times> 'e"
  setTimeout :: "nat \<Rightarrow> 'e \<Rightarrow> unit \<times> 'e"
  loadActiveGroups :: "'e \<Rightarrow> unit \<times> 'e"
  new_URL :: "string \<Rightarrow> url_parts option"

record 'e world =
  store :: storage
  live :: 'e
  calls :: "call list"

text \<open>One call to the environment: run the primitive on the live state and log it.\<close>

definition invoke :: "call \<Rightarrow> ('e \<Rightarrow> 'a \<times> 'e) \<Rightarrow> 'e world \<Rightarrow> 'a \<times> 'e world" where
  "invoke c f w = (case f (live w) of (r, e') \<Rightarrow> (r, w\<lparr>live := e', calls := calls w @ [c]\<rparr>))"

text \<open>
  \<open>chrome.storage.local.get(key)\<close> and \<open>set\<close>: the environment decides whether the call
  rejects (and with which message); a call that rejects writes nothing.
\<close>

definition storage_get_sessions :: "'e chrome \<Rightarrow> 'e world \<Rightarrow> (string + sessionData list option) \<times> 'e world" where
  "storage_get_sessions ad w =
     (case invoke (StorageGet K_sessions) (storage_fault ad (StorageGet K_sessions)) w of
        (Some msg, w') \<Rightarrow> (Inl msg, w')
      | (None, w') \<Rightarrow> (Inr (sessions (store w')), w'))"

definition storage_set_sessions :: "'e chrome \<Rightarrow> sessionData list \<Rightarrow> 'e world \<Rightarrow> (string + unit) \<times> 'e world" where
  "storage_set_sessions ad v w =
     (case invoke (StorageSet K_sessions) (storage_fault ad (StorageSet K_sessions)) w of
        (Some msg, w') \<Rightarrow> (Inl msg, w')
      | (None, w') \<Rightarrow> (Inr (), w'\<lparr>store := (store w')\<lparr>sessions := Some v\<rparr>\<rparr>))"

definition storage_get_undoHistory :: "'e chrome \<Rightarrow> 'e world \<Rightarrow> (string + undoEntry list option) \<times> 'e world" where
  "storage_get_undoHistory ad w =
     (case invoke (StorageGet K_undoHistory) (storage_fault ad (StorageGet K_undoHistory)) w of
        (Some msg, w') \<Rightarrow> (Inl msg, w')
      | (None, w') \<Rightarrow> (Inr (undoHistory (store w')), w'))"

definition storage_set_undoHistory :: "'e chrome \<Rightarrow> undoEntry list \<Rightarrow> 'e world \<Rightarrow> (string + unit) \<times> 'e world" where
  "storage_set_undoHistory ad v w =
     (case invoke (StorageSet K_undoHistory) (storage_fault ad (StorageSet K_undoHistory)) w of
        (Some msg, w') \<Rightarrow> (Inl msg, w')
      | (None, w') \<Rightarrow> (Inr (), w'\<lparr>store := (store w')\<lparr>undoHistory := Some v\<rparr>\<rparr>))"

definition storage_set_test :: "'e chrome \<Rightarrow> string \<Rightarrow> 'e world \<Rightarrow> (string + unit) \<times> 'e world" where
  "storage_set_test ad v w =
     (case invoke (StorageSet K_test) (storage_fault ad (StorageSet K_test)) w of
        (Some msg, w') \<Rightarrow> (Inl msg, w')
      | (None, w') \<Rightarrow> (Inr (), w'\<lparr>store := (store w')\<lparr>test_key := Some v\<rparr>\<rparr>))"

definition storage_remove_test :: "'e chrome \<Rightarrow> 'e world \<Rightarrow> (string + unit) \<times> 'e world" where
  "storage_remove_test ad w =
     (case invoke (StorageRemove K_test) (storage_fault ad (StorageRemove K_test)) w of
        (Some msg, w') \<Rightarrow> (Inl msg, w')
      | (None, w') \<Rightarrow> (Inr (), w'\<lparr>store := (store w')\<lparr>test_key := None\<rparr>\<rparr>))"

subsection \<open>JavaScript helpers\<close>

text \<open>\<open>s.startsWith(p)\<close> and \<open>s.includes(p)\<close>.\<close>

definition startsWith :: "string \<Rightarrow> string \<Rightarrow> bool" where
  "startsWith s p = prefix p s"

fun str_includes :: "string \<Rightarrow> string \<Rightarrow> bool" where
  "str_includes [] p = (p = [])"
| "str_includes (c # cs) p = (prefix p (c # cs) \<or> str_includes cs p)"

text \<open>\<open>x || d\<close> for a value \<open>x\<close> that is a string or \<open>undefined\<close>: the empty string is falsy.\<close>

definition or_default :: "string option \<Rightarrow> string \<Rightarrow> string" where
  "or_default x d = (case x of None \<Rightarrow> d | Some s \<Rightarrow> if s = [] then d else s)"

text \<open>\<open>result.sessions || []\<close>.\<close>

definition or_empty :: "'a list option \<Rightarrow> 'a list" where
  "or_empty x = (case x of None \<Rightarrow> [] | Some xs \<Rightarrow> xs)"

subsection \<open>Durable store: listing and retention\<close>

text \<open>
  \<open>sessions.sort((a, b) => b.timestamp - a.timestamp)\<close>: \<open>Array.prototype.sort\<close> is stable,
  as is \<open>sort_key\<close>; descending timestamps are ascending negated timestamps.
\<close>

definition sort_newest_first :: "sessionData list \<Rightarrow> sessionData list" where
  "sort_newest_first ss = sort_key (\<lambda>s. - s_timestamp s) ss"

text \<open>\<open>getAllSessions\<close>: a failed read is logged and gives the empty list.\<close>

definition getAllSessions :: "'e chrome \<Rightarrow> 'e world \<Rightarrow> sessionData list \<times> 'e world" where
  "getAllSessions ad w =
     (case storage_get_sessions ad w of
        (Inl err, w') \<Rightarrow> ([], w')
      | (Inr result, w') \<Rightarrow> (sort_newest_first (or_empty result), w'))"

text \<open>The stored snapshot list, as every reader of the key sees it.\<close>

definition stored :: "'e world \<Rightarrow> sessionData list" where
  "stored w = or_empty (sessions (store w))"

text \<open>
  The retention step, which the source repeats verbatim in \<open>cleanupRecoverySessions\<close>,
  \<open>cleanupRecoverySessionsInline\<close>, \<open>autoSaveSession\<close> and the window-removal listener with
  different constants: filter by name prefix (\<open>s.name && s.name.startsWith(p)\<close>), sort newest first, and, when more than
  \<open>maxCount\<close> match, keep the sessions whose id is not the id of a match beyond the first
  \<open>maxCount\<close>. \<open>None\<close> means that nothing is written. (\<open>maxCount\<close> is a count; for a
  natural number \<open>slice(maxCount)\<close> is \<open>drop maxCount\<close>.)
\<close>

definition named :: "string \<Rightarrow> sessionData \<Rightarrow> bool" where
  "named p s = (s_name s \<noteq> [] \<and> startsWith (s_name s) p)"

definition matching_sessions :: "string \<Rightarrow> sessionData list \<Rightarrow> sessionData list" where
  "matching_sessions p ss = sort_newest_first (filter (named p) ss)"

definition remainingSessions :: "string \<Rightarrow> nat \<Rightarrow> sessionData list \<Rightarrow> sessionData list option" where
  "remainingSessions p maxCount ss =
     (let recoverySessions = matching_sessions p ss in
      if length recoverySessions > maxCount then
        (let toDelete = drop maxCount recoverySessions in
         Some (filter (\<lambda>s. find (\<lambda>ds. s_id ds = s_id s) toDelete = None) ss))
      else None)"

definition cleanupRecoverySessions :: "'e chrome \<Rightarrow> nat \<Rightarrow> 'e world \<Rightarrow> 'e world" where
  "cleanupRecoverySessions ad maxCount w =
     (case getAllSessions ad w of (ss, w1) \<Rightarrow>
        (case remainingSessions ''Recovery ('' maxCount ss of
           None \<Rightarrow> w1
         | Some remaining \<Rightarrow> snd (storage_set_sessions ad remaining w1)))"

definition cleanupRecoverySessionsInline :: "'e chrome \<Rightarrow> 'e world \<Rightarrow> 'e world" where
  "cleanupRecoverySessionsInline ad w =
     (case storage_get_sessions ad w of
        (Inl err, w1) \<Rightarrow> w1
      | (Inr result, w1) \<Rightarrow>
          (case remainingSessions ''Recovery ('' 3 (or_empty result) of
             None \<Rightarrow> w1
           | Some remaining \<Rightarrow> snd (storage_set_sessions ad remaining w1)))"

text \<open>
  The failure-free environments: no call to \<open>chrome.storage.local\<close> rejects.
\<close>

definition storage_reliable :: "'e chrome \<Rightarrow> bool" where
  "storage_reliable ad = (\<forall>c e. fst (storage_fault ad c e) = None)"

subsection \<open>Capture: \<open>saveCurrentSession\<close>\<close>

text \<open>The storage quota limit in bytes (10 MB).\<close>

definition STORAGE_QUOTA :: int where
  "STORAGE_QUOTA = 10 * 1024 * 1024"

text \<open>
  \<open>checkStorageQuota\<close> returns \<open>bytesInUse\<close> and \<open>available\<close>; when the usage cannot be
  read it answers as if nothing were in use. (\<open>percentUsed\<close> only feeds a console warning.)
\<close>

definition checkStorageQuota :: "'e chrome \<Rightarrow> 'e world \<Rightarrow> (int \<times> int) \<times> 'e world" where
  "checkStorageQuota ad w =
     (case invoke StorageGetBytesInUse (getBytesInUse ad) w of
        (Inr bytesInUse, w') \<Rightarrow> ((bytesInUse, STORAGE_QUOTA - bytesInUse), w')
      | (Inl err, w') \<Rightarrow> ((0, STORAGE_QUOTA), w'))"

text \<open>
  \<open>Number.prototype.toString\<close> on the integers the code prints (clock readings and ids,
  far below the magnitude where JavaScript switches to exponent notation).
\<close>

function digits :: "int \<Rightarrow> string" where
  "digits n = (if n < 10 then [char_of (48 + n)] else digits (n div 10) @ [char_of (48 + n mod 10)])"
  by pat_completeness auto
termination
  by (relation "measure nat") auto

definition Number_toString :: "int \<Rightarrow> string" where
  "Number_toString i = (if i < 0 then CHR ''-'' # digits (- i) else digits i)"

text \<open>
  \<open>JSON.stringify\<close> on a \<open>sessionData\<close> object: members in the order of the object
  literals, no white space, strings quoted as \<open>QuoteJSONString\<close> does (the quotation mark
  is code unit 0x22, the reverse solidus 0x5C).
\<close>

definition hex_digit :: "nat \<Rightarrow> char" where
  "hex_digit n = (if n < 10 then char_of (48 + n) else char_of (87 + n))"

definition json_escape :: "char \<Rightarrow> string" where
  "json_escape c =
     (let n = (of_char c :: nat) in
      if n = 8 then [CHR 0x5C, CHR ''b'']
      else if n = 9 then [CHR 0x5C, CHR ''t'']
      else if n = 10 then [CHR 0x5C, CHR ''n'']
      else if n = 12 then [CHR 0x5C, CHR ''f'']
      else if n = 13 then [CHR 0x5C, CHR ''r'']
      else if n = 34 then [CHR 0x5C, CHR 0x22]
      else if n = 92 then [CHR 0x5C, CHR 0x5C]
      else if n < 32 then [CHR 0x5C, CHR ''u'', CHR ''0'', CHR ''0'', hex_digit (n div 16), hex_digit (n mod 16)]
      else [c])"

definition json_string :: "string \<Rightarrow> string" where
  "json_string s = CHR 0x22 # concat (map json_escape s) @ [CHR 0x22]"

definition json_bool :: "bool \<Rightarrow> string" where
  "json_bool b = (if b then ''true'' else ''false'')"

fun join_commas :: "string list \<Rightarrow> string" where
  "join_commas [] = []"
| "join_commas [x] = x"
| "join_commas (x # y # ys) = x @ '','' @ join_commas (y # ys)"

definition json_array :: "string list \<Rightarrow> string" where
  "json_array xs = ''['' @ join_commas xs @ '']''"

definition json_member :: "string \<Rightarrow> string \<Rightarrow> string" where
  "json_member k v = json_string k @ '':'' @ v"

definition json_object :: "string list \<Rightarrow> string" where
  "json_object ms = ''{'' @ join_commas ms @ ''}''"

definition json_tabData :: "tabData \<Rightarrow> string" where
  "json_tabData td = json_object
     [json_member ''url'' (json_string (td_url td)),
      json_member ''title'' (json_string (td_title td)),
      json_member ''pinned'' (json_bool (td_pinned td)),
      json_member ''active'' (json_bool (td_active td)),
      json_member ''originalGroupId''
        (case td_originalGroupId td of None \<Rightarrow> ''null'' | Some g \<Rightarrow> Number_toString g)]"

definition json_windowData :: "windowData \<Rightarrow> string" where
  "json_windowData wd = json_object
     [json_member ''id'' (Number_toString (wd_id wd)),
      json_member ''tabs'' (json_array (map json_tabData (wd_tabs wd)))]"

definition json_groupInfo :: "groupInfo \<Rightarrow> string" where
  "json_groupInfo g = json_object
     [json_member ''originalId'' (Number_toString (gi_originalId g)),
      json_member ''title'' (json_string (gi_title g)),
      json_member ''color'' (json_string (gi_color g)),
      json_member ''collapsed'' (json_bool (gi_collapsed g)),
      json_member ''tabUrls'' (json_array (map json_string (gi_tabUrls g)))]"

definition JSON_stringify :: "sessionData \<Rightarrow> string" where
  "JSON_stringify sd = json_object
     [json_member ''id'' (json_string (s_id sd)),
      json_member ''name'' (json_string (s_name sd)),
      json_member ''timestamp'' (Number_toString (s_timestamp sd)),
      json_member ''windows'' (json_array (map json_windowData (s_windows sd))),
      json_member ''groups'' (json_array (map json_groupInfo (s_groups sd)))]"

text \<open>
  \<open>estimateSessionSize\<close>: two bytes per UTF-16 code unit of the JSON text. (The \<open>catch\<close>
  branch that returns 0 is for values \<open>JSON.stringify\<close> rejects; a \<open>sessionData\<close> is
  never one.)
\<close>

definition estimateSessionSize :: "sessionData \<Rightarrow> int" where
  "estimateSessionSize sd = int (length (JSON_stringify sd)) * 2"

text \<open>
  The test that makes the capture loop \<open>continue\<close>:
  \<open>!tab.url || tab.url.startsWith('chrome://') || tab.url.startsWith('chrome-extension://')\<close>.
\<close>

definition skipped_url :: "string option \<Rightarrow> bool" where
  "skipped_url u = (case u of None \<Rightarrow> True
     | Some s \<Rightarrow> s = [] \<or> startsWith s ''chrome://'' \<or> startsWith s ''chrome-extension://'')"

definition mk_tabData :: "tab \<Rightarrow> string \<Rightarrow> tabData" where
  "mk_tabData t u =
     \<lparr> td_url = u,
       td_title = or_default (tab_title t) ''Untitled'',
       td_pinned = tab_pinned t,
       td_active = tab_active t,
       td_originalGroupId = (if tab_groupId t \<noteq> TAB_ID_NONE then Some (tab_groupId t) else None) \<rparr>"

definition mk_groupInfo :: "tabGroup \<Rightarrow> groupInfo" where
  "mk_groupInfo g =
     \<lparr> gi_originalId = grp_id g,
       gi_title = or_default (grp_title g) ''Untitled Group'',
       gi_color = or_default (grp_color g) ''grey'',
       gi_collapsed = grp_collapsed g,
       gi_tabUrls = [] \<rparr>"

text \<open>
  \<open>groupMap\<close> is a JavaScript \<open>Map\<close>: an association list in insertion order, where
  setting a new key appends and setting a present key replaces in place
  (\<open>AList.update\<close>); \<open>groupMap.has\<close> and \<open>groupMap.get\<close> are \<open>map_of\<close>.
\<close>

type_synonym groupMap = "(int \<times> groupInfo) list"

text \<open>
  The group part of the loop body for one tab that was not skipped: fetch the group's
  metadata unless the map already has the group (a failed fetch is logged and sets
  nothing), then push the URL onto the entry if there is one.
\<close>

definition collect_group :: "'e chrome \<Rightarrow> int \<Rightarrow> string \<Rightarrow> groupMap \<times> 'e world \<Rightarrow> groupMap \<times> 'e world" where
  "collect_group ad gid u st =
     (case st of (gm, w) \<Rightarrow>
        (case (if map_of gm gid = None then
                 (case invoke (TabGroupsGet gid) (tabGroups_get ad gid) w of
                    (Inr g, w1) \<Rightarrow> (AList.update gid (mk_groupInfo g) gm, w1)
                  | (Inl err, w1) \<Rightarrow> (gm, w1))
               else (gm, w)) of
           (gm1, w1) \<Rightarrow>
             (case map_of gm1 gid of
                None \<Rightarrow> (gm1, w1)
              | Some groupInfo \<Rightarrow>
                  (AList.update gid (groupInfo\<lparr>gi_tabUrls := gi_tabUrls groupInfo @ [u]\<rparr>) gm1, w1))))"

text \<open>The loop body for one tab; the state is \<open>windowData.tabs\<close>, \<open>groupMap\<close> and the world.\<close>

definition capture_tab :: "'e chrome \<Rightarrow> tab \<Rightarrow> (tabData list \<times> groupMap) \<times> 'e world \<Rightarrow> (tabData list \<times> groupMap) \<times> 'e world" where
  "capture_tab ad t st =
     (case st of ((tabs, gm), w) \<Rightarrow>
        (case tab_url t of
           None \<Rightarrow> st
         | Some u \<Rightarrow>
             if skipped_url (Some u) then st
             else
               (let tabs' = tabs @ [mk_tabData t u] in
                if tab_groupId t \<noteq> TAB_ID_NONE then
                  (case collect_group ad (tab_groupId t) u (gm, w) of (gm', w') \<Rightarrow> ((tabs', gm'), w'))
                else ((tabs', gm), w))))"

text \<open>The loop body for one window; the state is \<open>sessionData.windows\<close>, \<open>groupMap\<close> and the world.\<close>

definition capture_window :: "'e chrome \<Rightarrow> window \<Rightarrow> (windowData list \<times> groupMap) \<times> 'e world \<Rightarrow> (windowData list \<times> groupMap) \<times> 'e world" where
  "capture_window ad win st =
     (case st of ((wins, gm), w) \<Rightarrow>
        (case fold (capture_tab ad) (or_empty (win_tabs win)) (([], gm), w) of
           ((tabs, gm'), w') \<Rightarrow>
             ((if length tabs > 0 then wins @ [\<lparr> wd_id = win_id win, wd_tabs = tabs \<rparr>] else wins, gm'), w')))"

definition MSG_no_access :: string where
  "MSG_no_access = ''Cannot access storage. Check permissions.''"

definition MSG_quota :: string where
  "MSG_quota = ''Storage quota exceeded. Please delete old sessions or export and clear.''"

definition MSG_quota_write :: string where
  "MSG_quota_write = ''Storage quota exceeded. Please delete old sessions.''"

definition MSG_could_not_save :: string where
  "MSG_could_not_save = ''Could not save session. Storage might be full.''"

text \<open>The inner \<open>catch (storageError)\<close> around the read-append-write of the list.\<close>

definition storage_error :: "string \<Rightarrow> string" where
  "storage_error msg =
     (if str_includes msg ''QUOTA'' \<or> str_includes msg ''quota'' then MSG_quota_write
      else MSG_could_not_save)"

text \<open>
  The body of the outer \<open>try\<close> of \<open>saveCurrentSession\<close>, in the three parts the source
  marks with comments. First: test storage access.
\<close>

definition test_storage_access :: "'e chrome \<Rightarrow> 'e world \<Rightarrow> (string + unit) \<times> 'e world" where
  "test_storage_access ad w =
     (case storage_set_test ad ''test'' w of
        (Inl err, w1) \<Rightarrow> (Inl MSG_no_access, w1)
      | (Inr _, w1) \<Rightarrow>
          (case storage_remove_test ad w1 of
             (Inl err, w2) \<Rightarrow> (Inl MSG_no_access, w2)
           | (Inr _, w2) \<Rightarrow> (Inr (), w2)))"

text \<open>
  Second: enumerate the windows and build \<open>sessionData\<close> (the clock is read twice, for
  the id and for the timestamp). A failure of \<open>chrome.windows.getAll\<close> goes to the outer
  \<open>catch\<close>.
\<close>

definition capture_session :: "'e chrome \<Rightarrow> string \<Rightarrow> 'e world \<Rightarrow> (string + sessionData) \<times> 'e world" where
  "capture_session ad sessionName w =
     (case invoke WindowsGetAll (windows_getAll ad) w of
        (Inl err, w1) \<Rightarrow> (Inl err, w1)
      | (Inr windows, w1) \<Rightarrow>
     (case invoke DateNow (Date_now ad) w1 of (now1, w2) \<Rightarrow>
     (case invoke DateNow (Date_now ad) w2 of (now2, w3) \<Rightarrow>
     (case fold (capture_window ad) windows (([], []), w3) of ((wins, groupMap), w4) \<Rightarrow>
        (Inr \<lparr> s_id = Number_toString now1,
               s_name = sessionName,
               s_timestamp = now2,
               s_windows = wins,
               s_groups = map snd groupMap \<rparr>, w4)))))"

text \<open>
  Third: check the storage quota, then read the list, append and write it back; the
  read and the write are inside the inner \<open>try\<close>.
\<close>

definition put_session :: "'e chrome \<Rightarrow> sessionData \<Rightarrow> 'e world \<Rightarrow> (string + string) \<times> 'e world" where
  "put_session ad sessionData w =
     (case checkStorageQuota ad w of ((bytesInUse, available), w1) \<Rightarrow>
        if estimateSessionSize sessionData > available then (Inl MSG_quota, w1)
        else
          (case storage_get_sessions ad w1 of
             (Inl err, w2) \<Rightarrow> (Inl (storage_error err), w2)
           | (Inr result, w2) \<Rightarrow>
               (case storage_set_sessions ad (or_empty result @ [sessionData]) w2 of
                  (Inl err, w3) \<Rightarrow> (Inl (storage_error err), w3)
                | (Inr _, w3) \<Rightarrow> (Inr (s_id sessionData), w3))))"

definition saveCurrentSession_body :: "'e chrome \<Rightarrow> string \<Rightarrow> 'e world \<Rightarrow> (string + string) \<times> 'e world" where
  "saveCurrentSession_body ad sessionName w =
     (case test_storage_access ad w of
        (Inl err, w1) \<Rightarrow> (Inl err, w1)
      | (Inr _, w1) \<Rightarrow>
          (case capture_session ad sessionName w1 of
             (Inl err, w2) \<Rightarrow> (Inl err, w2)
           | (Inr sessionData, w2) \<Rightarrow> put_session ad sessionData w2))"

text \<open>
  The outer \<open>catch\<close>: an error whose message mentions \<open>Could not\<close>, \<open>Storage\<close> or
  \<open>quota\<close> is rethrown, any other is replaced.
\<close>

definition saveCurrentSession :: "'e chrome \<Rightarrow> string \<Rightarrow> 'e world \<Rightarrow> (string + string) \<times> 'e world" where
  "saveCurrentSession ad sessionName w =
     (case saveCurrentSession_body ad sessionName w of
        (Inl msg, w') \<Rightarrow>
          (if str_includes msg ''Could not'' \<or> str_includes msg ''Storage'' \<or> str_includes msg ''quota''
           then (Inl msg, w') else (Inl MSG_could_not_save, w'))
      | (Inr sid, w') \<Rightarrow> (Inr sid, w'))"

subsection \<open>Validation and identity reconciliation\<close>

text \<open>
  \<open>validateSession\<close>. A \<open>sessionData\<close> always has a string id and name, a numeric
  timestamp and both arrays, so the first five tests of the source never reject it; what
  is left is the search for a window with a tab and the test of the group list.
\<close>

definition validateSession :: "sessionData \<Rightarrow> bool" where
  "validateSession session =
     (let hasTabs = (find (\<lambda>windowData. length (wd_tabs windowData) > 0) (s_windows session) \<noteq> None) in
      \<not> (\<not> hasTabs \<and> length (s_groups session) = 0))"

text \<open>
  \<open>normalizeUrl\<close>, the local function of \<open>findTabByUrl\<close>; the platform's parser is
  passed in.
\<close>

definition normalizeUrl :: "(string \<Rightarrow> url_parts option) \<Rightarrow> string \<Rightarrow> string" where
  "normalizeUrl parse url =
     (case parse url of Some parsed \<Rightarrow> hostname parsed @ pathname parsed @ search parsed | None \<Rightarrow> url)"

text \<open>\<open>t.url || t.pendingUrl || ''\<close>.\<close>

definition url_or_pending :: "tab \<Rightarrow> string" where
  "url_or_pending t = or_default (tab_url t) (or_default (tab_pendingUrl t) [])"

definition findTabByUrl :: "(string \<Rightarrow> url_parts option) \<Rightarrow> tab list \<Rightarrow> string \<Rightarrow> tab option" where
  "findTabByUrl parse tabs targetUrl =
     (case find (\<lambda>t. tab_url t = Some targetUrl) tabs of
        Some t \<Rightarrow> Some t
      | None \<Rightarrow>
          (case find (\<lambda>t. tab_pendingUrl t = Some targetUrl) tabs of
             Some t \<Rightarrow> Some t
           | None \<Rightarrow>
               find (\<lambda>t. normalizeUrl parse (url_or_pending t) = normalizeUrl parse targetUrl) tabs))"

subsection \<open>Restore: \<open>waitForTabs\<close> and \<open>restoreSession\<close>\<close>

text \<open>A value that is a string or \<open>undefined\<close> is truthy when it is a non-empty string.\<close>

definition truthy :: "string option \<Rightarrow> bool" where
  "truthy x = (case x of None \<Rightarrow> False | Some s \<Rightarrow> s \<noteq> [])"

text \<open>
  The polling loop of \<open>waitForTabs\<close>. It ends when the clock of the environment has
  advanced by \<open>maxWait\<close>, when a query fails, or when one of the two \<open>return tabs\<close> is
  reached; an environment whose clock stands still can keep it running, which is the
  value \<open>None\<close>. The result \<open>Some (Some tabs, w)\<close> is \<open>return tabs\<close>, and
  \<open>Some (None, w)\<close> is leaving the loop (by the loop test or by \<open>break\<close>).
\<close>

partial_function (option) waitForTabs_loop ::
  "'e chrome \<Rightarrow> int \<Rightarrow> nat \<Rightarrow> int \<Rightarrow> int \<Rightarrow> nat \<Rightarrow> nat \<Rightarrow> 'e world \<Rightarrow> (tab list option \<times> 'e world) option"
where
  "waitForTabs_loop ad windowId expectedCount maxWait startTime lastTabCount stableCount w =
     (case invoke DateNow (Date_now ad) w of (now, w1) \<Rightarrow>
        if now - startTime < maxWait then
          (case invoke (TabsQuery windowId) (tabs_query ad windowId) w1 of
             (Inl err, w2) \<Rightarrow> Some (None, w2)
           | (Inr tabs, w2) \<Rightarrow>
               if length tabs \<ge> expectedCount \<and>
                  length (filter (\<lambda>t. truthy (tab_url t) \<or> truthy (tab_pendingUrl t)) tabs) \<ge> expectedCount
               then Some (Some tabs, w2)
               else if length tabs = lastTabCount then
                 (if stableCount + 1 \<ge> 3 \<and> length tabs > 0 then Some (Some tabs, w2)
                  else
                    (case invoke (SetTimeout 200) (setTimeout ad 200) w2 of (_, w3) \<Rightarrow>
                       waitForTabs_loop ad windowId expectedCount maxWait startTime lastTabCount (stableCount + 1) w3))
               else
                 (case invoke (SetTimeout 200) (setTimeout ad 200) w2 of (_, w3) \<Rightarrow>
                    waitForTabs_loop ad windowId expectedCount maxWait startTime (length tabs) 0 w3))
        else Some (None, w1))"

declare waitForTabs_loop.simps [code]

text \<open>
  \<open>waitForTabs\<close>: after the loop, whatever tabs the window has; the outer \<open>catch\<close> turns
  a failure of that last query into the empty list.
\<close>

definition waitForTabs :: "'e chrome \<Rightarrow> int \<Rightarrow> nat \<Rightarrow> int \<Rightarrow> 'e world \<Rightarrow> (tab list \<times> 'e world) option" where
  "waitForTabs ad windowId expectedCount maxWait w =
     (case invoke DateNow (Date_now ad) w of (startTime, w1) \<Rightarrow>
        (case waitForTabs_loop ad windowId expectedCount maxWait startTime 0 0 w1 of
           None \<Rightarrow> None
         | Some (Some tabs, w2) \<Rightarrow> Some (tabs, w2)
         | Some (None, w2) \<Rightarrow>
             (case invoke (TabsQuery windowId) (tabs_query ad windowId) w2 of
                (Inr tabs, w3) \<Rightarrow> Some (tabs, w3)
              | (Inl err, w3) \<Rightarrow> Some ([], w3))))"

text \<open>
  The URLs of a recorded window that restore opens:
  \<open>url && !url.startsWith('chrome://') && !url.startsWith('chrome-extension://')\<close>.
\<close>

definition restorable_urls :: "windowData \<Rightarrow> string list" where
  "restorable_urls windowData = filter (\<lambda>url. \<not> skipped_url (Some url)) (map td_url (wd_tabs windowData))"

text \<open>
  The remaining tabs are created by \<open>Promise.all\<close> over \<open>chrome.tabs.create\<close>, each call
  with its own \<open>catch\<close>; the calls are issued in the order of the URLs.
\<close>

definition create_tab :: "'e chrome \<Rightarrow> int \<Rightarrow> string \<Rightarrow> 'e world \<Rightarrow> 'e world" where
  "create_tab ad windowId url w = snd (invoke (TabsCreate windowId url) (tabs_create ad windowId url) w)"

text \<open>Restore pinned state: each failure of \<open>chrome.tabs.update\<close> is caught on its own.\<close>

definition restore_pinned :: "'e chrome \<Rightarrow> tab list \<Rightarrow> tabData \<Rightarrow> 'e world \<Rightarrow> 'e world" where
  "restore_pinned ad createdTabs originalTab w =
     (if td_pinned originalTab then
        (case findTabByUrl (new_URL ad) createdTabs (td_url originalTab) of
           Some createdTab \<Rightarrow> snd (invoke (TabsUpdatePinned (tab_id createdTab)) (tabs_update_pinned ad (tab_id createdTab)) w)
         | None \<Rightarrow> w)
      else w)"

text \<open>The tab ids of a recorded group: the matching tabs that are not pinned.\<close>

definition groupTabIds :: "'e chrome \<Rightarrow> tab list \<Rightarrow> groupInfo \<Rightarrow> int list" where
  "groupTabIds ad updatedTabs groupData =
     concat (map (\<lambda>tabUrl.
        (case findTabByUrl (new_URL ad) updatedTabs tabUrl of
           Some matchingTab \<Rightarrow> if \<not> tab_pinned matchingTab then [tab_id matchingTab] else []
         | None \<Rightarrow> [])) (gi_tabUrls groupData))"

text \<open>
  Restore one group: \<open>chrome.tabs.group\<close>, then \<open>chrome.tabGroups.update\<close>, inside one
  \<open>try\<close>; a group with no matching tab is only logged.
\<close>

definition restore_group :: "'e chrome \<Rightarrow> tab list \<Rightarrow> groupInfo \<Rightarrow> 'e world \<Rightarrow> 'e world" where
  "restore_group ad updatedTabs groupData w =
     (let ids = groupTabIds ad updatedTabs groupData in
      if length ids > 0 then
        (case invoke (TabsGroup ids) (tabs_group ad ids) w of
           (Inl err, w1) \<Rightarrow> w1
         | (Inr groupId, w1) \<Rightarrow>
             snd (invoke (TabGroupsUpdate groupId)
                    (tabGroups_update ad groupId
                       (Some (or_default (Some (gi_title groupData)) ''Restored Group''))
                       (Some (or_default (Some (gi_color groupData)) ''grey''))
                       (gi_collapsed groupData)) w1))
      else w)"

text \<open>
  Restore the active tab: the first recorded active tab that matches a live tab is
  activated and the loop ends (\<open>break\<close>, or the \<open>catch\<close> around the loop when the update
  fails).
\<close>

fun restore_active :: "'e chrome \<Rightarrow> tab list \<Rightarrow> tabData list \<Rightarrow> 'e world \<Rightarrow> 'e world" where
  "restore_active ad updatedTabs [] w = w"
| "restore_active ad updatedTabs (originalTab # rest) w =
     (if td_active originalTab then
        (case findTabByUrl (new_URL ad) updatedTabs (td_url originalTab) of
           Some createdTab \<Rightarrow> snd (invoke (TabsUpdateActive (tab_id createdTab)) (tabs_update_active ad (tab_id createdTab)) w)
         | None \<Rightarrow> restore_active ad updatedTabs rest w)
      else restore_active ad updatedTabs rest w)"

text \<open>
  The body of the loop over \<open>session.windows\<close>. \<open>Inl message\<close> is an exception that
  leaves the loop: \<open>chrome.windows.create\<close> and the query after pinning are not inside a
  \<open>try\<close> of their own.
\<close>

definition restore_window :: "'e chrome \<Rightarrow> sessionData \<Rightarrow> windowData \<Rightarrow> 'e world \<Rightarrow> ((string + unit) \<times> 'e world) option" where
  "restore_window ad session windowData w =
     (let tabUrls = restorable_urls windowData in
      case tabUrls of
        [] \<Rightarrow> Some (Inr (), w)
      | firstTabUrl # remainingUrls \<Rightarrow>
          (case invoke (WindowsCreate firstTabUrl) (windows_create ad firstTabUrl) w of
             (Inl err, w1) \<Rightarrow> Some (Inl err, w1)
           | (Inr win, w1) \<Rightarrow>
               (let w2 = fold (create_tab ad (win_id win)) remainingUrls w1 in
                case waitForTabs ad (win_id win) (length tabUrls) 10000 w2 of
                  None \<Rightarrow> None
                | Some (createdTabs, w3) \<Rightarrow>
                    (let w4 = fold (restore_pinned ad createdTabs) (wd_tabs windowData) w3 in
                     case invoke (TabsQuery (win_id win)) (tabs_query ad (win_id win)) w4 of
                       (Inl err, w5) \<Rightarrow> Some (Inl err, w5)
                     | (Inr updatedTabs, w5) \<Rightarrow>
                         (let w6 = fold (restore_group ad updatedTabs) (s_groups session) w5;
                              w7 = restore_active ad updatedTabs (wd_tabs windowData) w6
                          in Some (Inr (), w7))))))"

fun restore_windows :: "'e chrome \<Rightarrow> sessionData \<Rightarrow> windowData list \<Rightarrow> 'e world \<Rightarrow> ((string + unit) \<times> 'e world) option" where
  "restore_windows ad session [] w = Some (Inr (), w)"
| "restore_windows ad session (windowData # rest) w =
     (case restore_window ad session windowData w of
        None \<Rightarrow> None
      | Some (Inl err, w') \<Rightarrow> Some (Inl err, w')
      | Some (Inr _, w') \<Rightarrow> restore_windows ad session rest w')"

definition MSG_not_found :: string where
  "MSG_not_found = ''Session not found''"

definition MSG_invalid :: string where
  "MSG_invalid = ''Invalid or empty session''"

definition MSG_restore_failed :: string where
  "MSG_restore_failed = ''Failed to restore session. Some tabs may be unavailable.''"

definition restoreSession_body :: "'e chrome \<Rightarrow> string \<Rightarrow> 'e world \<Rightarrow> ((string + unit) \<times> 'e world) option" where
  "restoreSession_body ad sessionId w =
     (case getAllSessions ad w of (allSessions, w1) \<Rightarrow>
        (case find (\<lambda>s. s_id s = sessionId) allSessions of
           None \<Rightarrow> Some (Inl MSG_not_found, w1)
         | Some session \<Rightarrow>
             if \<not> validateSession session then Some (Inl MSG_invalid, w1)
             else restore_windows ad session (s_windows session) w1))"

text \<open>
  The outer \<open>catch\<close>: an error whose message mentions \<open>Session not found\<close>, \<open>Invalid\<close>
  or \<open>Failed to restore\<close> is rethrown, any other is replaced by the generic failure.
\<close>

definition restoreSession :: "'e chrome \<Rightarrow> string \<Rightarrow> 'e world \<Rightarrow> ((string + unit) \<times> 'e world) option" where
  "restoreSession ad sessionId w =
     (case restoreSession_body ad sessionId w of
        None \<Rightarrow> None
      | Some (Inl msg, w') \<Rightarrow>
          (if str_includes msg ''Session not found'' \<or> str_includes msg ''Invalid'' \<or> str_includes msg ''Failed to restore''
           then Some (Inl msg, w') else Some (Inl MSG_restore_failed, w'))
      | Some (Inr u, w') \<Rightarrow> Some (Inr u, w'))"

subsection \<open>Undo: recording the arrangement before an action\<close>

text \<open>
  \<open>history.push(entry); if (history.length > 20) history.shift()\<close>.
\<close>

definition push_bounded :: "undoEntry list \<Rightarrow> undoEntry \<Rightarrow> undoEntry list" where
  "push_bounded history entry =
     (let history' = history @ [entry] in
      if length history' > 20 then tl history' else history')"

text \<open>
  The saved tab. The popup's \<open>saveUndoState\<close> does not record \<open>pinned\<close>
  (\<open>with_pinned = False\<close>), \<open>captureCurrentGroupsInline\<close> does.
\<close>

definition mk_savedTab :: "bool \<Rightarrow> tab \<Rightarrow> savedTab" where
  "mk_savedTab with_pinned t =
     \<lparr> st_id = tab_id t,
       st_url = tab_url t,
       st_title = tab_title t,
       st_groupId = (if tab_groupId t \<noteq> TAB_ID_NONE then Some (tab_groupId t) else None),
       st_index = tab_index t,
       st_pinned = (if with_pinned then Some (tab_pinned t) else None) \<rparr>"

text \<open>
  \<open>groupIds\<close> is a JavaScript \<open>Set\<close>: the group ids of the window's tabs in the order of
  their first occurrence.
\<close>

definition groupIds :: "tab list \<Rightarrow> int list" where
  "groupIds tabs =
     fold (\<lambda>t ids. if tab_groupId t \<noteq> TAB_ID_NONE \<and> tab_groupId t \<notin> set ids then ids @ [tab_groupId t] else ids)
       tabs []"

text \<open>One group of the window: a failed \<open>chrome.tabGroups.get\<close> is logged and skipped.\<close>

definition capture_saved_group :: "'e chrome \<Rightarrow> tab list \<Rightarrow> int \<Rightarrow> savedGroup list \<times> 'e world \<Rightarrow> savedGroup list \<times> 'e world" where
  "capture_saved_group ad tabs groupId st =
     (case st of (groups, w) \<Rightarrow>
        (case invoke (TabGroupsGet groupId) (tabGroups_get ad groupId) w of
           (Inr g, w1) \<Rightarrow>
             (groups @ [\<lparr> sg_id = groupId,
                          sg_title = grp_title g,
                          sg_color = grp_color g,
                          sg_collapsed = grp_collapsed g,
                          sg_tabIds = map tab_id (filter (\<lambda>t. tab_groupId t = groupId) tabs) \<rparr>], w1)
         | (Inl err, w1) \<Rightarrow> (groups, w1)))"

definition capture_windowState :: "'e chrome \<Rightarrow> bool \<Rightarrow> window \<Rightarrow> windowState list \<times> 'e world \<Rightarrow> windowState list \<times> 'e world" where
  "capture_windowState ad with_pinned win st =
     (case st of (windowStates, w) \<Rightarrow>
        (case win_tabs win of
           None \<Rightarrow> (windowStates @ [\<lparr> ws_id = win_id win, ws_tabs = [], ws_groups = [] \<rparr>], w)
         | Some tabs \<Rightarrow>
             (case fold (capture_saved_group ad tabs) (groupIds tabs) ([], w) of
                (groups, w') \<Rightarrow>
                  (windowStates @ [\<lparr> ws_id = win_id win,
                                      ws_tabs = map (mk_savedTab with_pinned) tabs,
                                      ws_groups = groups \<rparr>], w'))))"

text \<open>
  \<open>saveUndoState\<close> (popup). Its single \<open>try\<close> covers everything: a failure of the read,
  of \<open>chrome.windows.getAll\<close> or of the write is logged and nothing is recorded.
\<close>

definition saveUndoState :: "'e chrome \<Rightarrow> string \<Rightarrow> 'e world \<Rightarrow> 'e world" where
  "saveUndoState ad actionType w =
     (case storage_get_undoHistory ad w of
        (Inl err, w1) \<Rightarrow> w1
      | (Inr result, w1) \<Rightarrow>
     (case invoke WindowsGetAll (windows_getAll ad) w1 of
        (Inl err, w2) \<Rightarrow> w2
      | (Inr windows, w2) \<Rightarrow>
     (case fold (capture_windowState ad False) windows ([], w2) of (state, w3) \<Rightarrow>
     (case invoke DateNow (Date_now ad) w3 of (now, w4) \<Rightarrow>
        snd (storage_set_undoHistory ad
               (push_bounded (or_empty result)
                  \<lparr> ue_type = actionType, ue_timestamp = now, ue_previousGroups = state \<rparr>) w4)))))"

text \<open>
  The background variant. \<open>captureCurrentGroupsInline\<close> catches a failed
  \<open>chrome.windows.getAll\<close> and returns no windows; \<open>saveUndoStateInline\<close> reads the clock
  before capturing and reports whether the entry was written.
\<close>

definition captureCurrentGroupsInline :: "'e chrome \<Rightarrow> 'e world \<Rightarrow> windowState list \<times> 'e world" where
  "captureCurrentGroupsInline ad w =
     (case invoke WindowsGetAll (windows_getAll ad) w of
        (Inl err, w1) \<Rightarrow> ([], w1)
      | (Inr windows, w1) \<Rightarrow> fold (capture_windowState ad True) windows ([], w1))"

definition saveUndoStateInline :: "'e chrome \<Rightarrow> string \<Rightarrow> 'e world \<Rightarrow> bool \<times> 'e world" where
  "saveUndoStateInline ad actionType w =
     (case storage_get_undoHistory ad w of
        (Inl err, w1) \<Rightarrow> (False, w1)
      | (Inr result, w1) \<Rightarrow>
     (case invoke DateNow (Date_now ad) w1 of (now, w2) \<Rightarrow>
     (case captureCurrentGroupsInline ad w2 of (state, w3) \<Rightarrow>
     (case storage_set_undoHistory ad
             (push_bounded (or_empty result)
                \<lparr> ue_type = actionType, ue_timestamp = now, ue_previousGroups = state \<rparr>) w3 of
        (Inl err, w4) \<Rightarrow> (False, w4)
      | (Inr _, w4) \<Rightarrow> (True, w4)))))"

text \<open>The undo history, as every reader of the key sees it.\<close>

definition undo_history :: "'e world \<Rightarrow> undoEntry list" where
  "undo_history w = or_empty (undoHistory (store w))"

subsection \<open>Undo: replaying the last entry\<close>

definition ungroup_tab :: "'e chrome \<Rightarrow> tab \<Rightarrow> 'e world \<Rightarrow> 'e world" where
  "ungroup_tab ad t w =
     (if tab_groupId t \<noteq> TAB_ID_NONE
      then snd (invoke (TabsUngroup [tab_id t]) (tabs_ungroup ad [tab_id t]) w)
      else w)"

text \<open>
  The live tab for a saved tab id: the tab with that id, else the tab whose URL equals the
  URL saved for that id.
\<close>

definition resolve_saved_tab :: "tab list \<Rightarrow> windowState \<Rightarrow> int \<Rightarrow> tab option" where
  "resolve_saved_tab existingTabs windowState savedTabId =
     (case find (\<lambda>t. tab_id t = savedTabId) existingTabs of
        Some t \<Rightarrow> Some t
      | None \<Rightarrow>
          (case find (\<lambda>t. st_id t = savedTabId) (ws_tabs windowState) of
             Some savedTab \<Rightarrow> find (\<lambda>t. tab_url t = st_url savedTab) existingTabs
           | None \<Rightarrow> None))"

definition tabsToGroup :: "tab list \<Rightarrow> windowState \<Rightarrow> savedGroup \<Rightarrow> int list" where
  "tabsToGroup existingTabs windowState g =
     concat (map (\<lambda>savedTabId.
        (case resolve_saved_tab existingTabs windowState savedTabId of
           Some t \<Rightarrow> [tab_id t]
         | None \<Rightarrow> [])) (sg_tabIds g))"

text \<open>
  Recreating one recorded group. The query of the window's tabs is not inside the
  \<open>try\<close> around \<open>chrome.tabs.group\<close>: its failure is \<open>Inl\<close>.
\<close>

definition recreate_group :: "'e chrome \<Rightarrow> int \<Rightarrow> windowState \<Rightarrow> savedGroup \<Rightarrow> 'e world \<Rightarrow> (string + unit) \<times> 'e world" where
  "recreate_group ad windowId windowState g w =
     (case invoke (TabsQuery windowId) (tabs_query ad windowId) w of
        (Inl err, w1) \<Rightarrow> (Inl err, w1)
      | (Inr existingTabs, w1) \<Rightarrow>
          (let ids = tabsToGroup existingTabs windowState g in
           if length ids > 0 then
             (case invoke (TabsGroup ids) (tabs_group ad ids) w1 of
                (Inl err, w2) \<Rightarrow> (Inr (), w2)
              | (Inr newGroupId, w2) \<Rightarrow>
                  (Inr (), snd (invoke (TabGroupsUpdate newGroupId)
                                  (tabGroups_update ad newGroupId (sg_title g) (sg_color g) (sg_collapsed g)) w2)))
           else (Inr (), w1)))"

fun recreate_groups :: "'e chrome \<Rightarrow> int \<Rightarrow> windowState \<Rightarrow> savedGroup list \<Rightarrow> 'e world \<Rightarrow> (string + unit) \<times> 'e world" where
  "recreate_groups ad windowId windowState [] w = (Inr (), w)"
| "recreate_groups ad windowId windowState (g # gs) w =
     (case recreate_group ad windowId windowState g w of
        (Inl err, w') \<Rightarrow> (Inl err, w')
      | (Inr _, w') \<Rightarrow> recreate_groups ad windowId windowState gs w')"

text \<open>
  The popup's loop body for one recorded window: a window that no longer exists is
  skipped; a failed query leaves the loop.
\<close>

definition undo_window :: "'e chrome \<Rightarrow> windowState \<Rightarrow> 'e world \<Rightarrow> (string + unit) \<times> 'e world" where
  "undo_window ad windowState w =
     (case invoke (WindowsGet (ws_id windowState)) (windows_get ad (ws_id windowState)) w of
        (Inl err, w1) \<Rightarrow> (Inr (), w1)
      | (Inr win, w1) \<Rightarrow>
          (case invoke (TabsQuery (win_id win)) (tabs_query ad (win_id win)) w1 of
             (Inl err, w2) \<Rightarrow> (Inl err, w2)
           | (Inr currentTabs, w2) \<Rightarrow>
               (let w3 = fold (ungroup_tab ad) currentTabs w2;
                    w4 = snd (invoke (SetTimeout 100) (setTimeout ad 100) w3)
                in recreate_groups ad (win_id win) windowState (ws_groups windowState) w4)))"

fun undo_windows :: "'e chrome \<Rightarrow> windowState list \<Rightarrow> 'e world \<Rightarrow> (string + unit) \<times> 'e world" where
  "undo_windows ad [] w = (Inr (), w)"
| "undo_windows ad (windowState # rest) w =
     (case undo_window ad windowState w of
        (Inl err, w') \<Rightarrow> (Inl err, w')
      | (Inr _, w') \<Rightarrow> undo_windows ad rest w')"

text \<open>
  \<open>performUndo\<close> (popup): \<open>False\<close> when there is nothing to undo or when anything inside
  the \<open>try\<close> fails. (The toasts are presentation; \<open>loadActiveGroups\<close> catches its own
  failures.)
\<close>

definition performUndo :: "'e chrome \<Rightarrow> 'e world \<Rightarrow> bool \<times> 'e world" where
  "performUndo ad w =
     (case storage_get_undoHistory ad w of
        (Inl err, w1) \<Rightarrow> (False, w1)
      | (Inr result, w1) \<Rightarrow>
          (let h = or_empty result in
           if length h = 0 then (False, w1)
           else
             (let lastState = last h in
              case storage_set_undoHistory ad (butlast h) w1 of
                (Inl err, w2) \<Rightarrow> (False, w2)
              | (Inr _, w2) \<Rightarrow>
                  (case undo_windows ad (ue_previousGroups lastState) w2 of
                     (Inl err, w3) \<Rightarrow> (False, w3)
                   | (Inr _, w3) \<Rightarrow> (True, snd (invoke LoadActiveGroups (loadActiveGroups ad) w3))))))"

text \<open>
  The background variant: \<open>restoreUndoStateInline\<close> wraps every window and every group in
  a \<open>try\<close> of its own, so a failure skips that window or group only.
\<close>

definition undo_window_inline :: "'e chrome \<Rightarrow> windowState \<Rightarrow> 'e world \<Rightarrow> 'e world" where
  "undo_window_inline ad windowState w =
     (case invoke (WindowsGet (ws_id windowState)) (windows_get ad (ws_id windowState)) w of
        (Inl err, w1) \<Rightarrow> w1
      | (Inr win, w1) \<Rightarrow>
          (case invoke (TabsQuery (win_id win)) (tabs_query ad (win_id win)) w1 of
             (Inl err, w2) \<Rightarrow> w2
           | (Inr currentTabs, w2) \<Rightarrow>
               (let w3 = fold (ungroup_tab ad) currentTabs w2;
                    w4 = snd (invoke (SetTimeout 100) (setTimeout ad 100) w3)
                in fold (\<lambda>g w'. snd (recreate_group ad (win_id win) windowState g w'))
                     (ws_groups windowState) w4)))"

definition restoreUndoStateInline :: "'e chrome \<Rightarrow> windowState list \<Rightarrow> 'e world \<Rightarrow> bool \<times> 'e world" where
  "restoreUndoStateInline ad state w = (True, fold (undo_window_inline ad) state w)"

definition undoLastActionInline :: "'e chrome \<Rightarrow> 'e world \<Rightarrow> bool \<times> 'e world" where
  "undoLastActionInline ad w =
     (case storage_get_undoHistory ad w of
        (Inl err, w1) \<Rightarrow> (False, w1)
      | (Inr result, w1) \<Rightarrow>
          (let h = or_empty result in
           if length h = 0 then (False, w1)
           else
             (let lastState = last h in
              case storage_set_undoHistory ad (butlast h) w1 of
                (Inl err, w2) \<Rightarrow> (False, w2)
              | (Inr _, w2) \<Rightarrow>
                  (True, snd (restoreUndoStateInline ad (ue_previousGroups lastState) w2)))))"

subsection \<open>A small simulated browser\<close>

text \<open>
  A concrete environment on which the model can be run: windows with their tabs, groups, a
  clock that every reading advances, a fixed storage usage, and a limit on the number of
  windows beyond which \<open>chrome.windows.create\<close> rejects. New tabs have their URL at once.
\<close>

record sim =
  sim_windows :: "window list"
  sim_groups :: "tabGroup list"
  sim_clock :: int
  sim_next :: int
  sim_bytes :: int
  sim_max_windows :: nat

definition sim_tab :: "int \<Rightarrow> string \<Rightarrow> tab" where
  "sim_tab i url =
     \<lparr> tab_id = i, tab_url = Some url, tab_pendingUrl = None, tab_title = None,
       tab_pinned = False, tab_active = False, tab_groupId = TAB_ID_NONE, tab_index = 0 \<rparr>"

definition sim_map_tabs :: "(tab \<Rightarrow> tab) \<Rightarrow> sim \<Rightarrow> sim" where
  "sim_map_tabs f e = e\<lparr>sim_windows := map (\<lambda>w. w\<lparr>win_tabs := map_option (map f) (win_tabs w)\<rparr>) (sim_windows e)\<rparr>"

definition sim_windows_get :: "int \<Rightarrow> sim \<Rightarrow> (string + window) \<times> sim" where
  "sim_windows_get i e =
     (case find (\<lambda>w. win_id w = i) (sim_windows e) of
        Some w \<Rightarrow> (Inr w, e)
      | None \<Rightarrow> (Inl ''No window with id'', e))"

definition sim_windows_create :: "string \<Rightarrow> sim \<Rightarrow> (string + window) \<times> sim" where
  "sim_windows_create url e =
     (if length (sim_windows e) \<ge> sim_max_windows e then (Inl ''Cannot create window'', e)
      else
        (let win = \<lparr> win_id = sim_next e, win_tabs = Some [sim_tab (sim_next e + 1) url] \<rparr> in
         (Inr win, e\<lparr>sim_windows := sim_windows e @ [win], sim_next := sim_next e + 2\<rparr>)))"

definition sim_tabs_create :: "int \<Rightarrow> string \<Rightarrow> sim \<Rightarrow> (string + tab) \<times> sim" where
  "sim_tabs_create wid url e =
     (case find (\<lambda>w. win_id w = wid) (sim_windows e) of
        None \<Rightarrow> (Inl ''No window with id'', e)
      | Some _ \<Rightarrow>
          (let t = sim_tab (sim_next e) url in
           (Inr t,
            e\<lparr>sim_windows :=
                 map (\<lambda>w. if win_id w = wid then w\<lparr>win_tabs := Some (or_empty (win_tabs w) @ [t])\<rparr> else w)
                   (sim_windows e),
              sim_next := sim_next e + 1\<rparr>)))"

definition sim_tabs_query :: "int \<Rightarrow> sim \<Rightarrow> (string + tab list) \<times> sim" where
  "sim_tabs_query wid e =
     (case find (\<lambda>w. win_id w = wid) (sim_windows e) of
        Some w \<Rightarrow> (Inr (or_empty (win_tabs w)), e)
      | None \<Rightarrow> (Inr [], e))"

definition sim_tabs_group :: "int list \<Rightarrow> sim \<Rightarrow> (string + int) \<times> sim" where
  "sim_tabs_group ids e =
     (let g = sim_next e;
          e1 = sim_map_tabs (\<lambda>t. if tab_id t \<in> set ids then t\<lparr>tab_groupId := g\<rparr> else t) e
      in (Inr g,
          e1\<lparr>sim_groups := sim_groups e1 @
                [\<lparr> grp_id = g, grp_title = None, grp_color = Some ''grey'', grp_collapsed = False \<rparr>],
             sim_next := g + 1\<rparr>))"

definition sim_tabGroups_get :: "int \<Rightarrow> sim \<Rightarrow> (string + tabGroup) \<times> sim" where
  "sim_tabGroups_get gid e =
     (case find (\<lambda>g. grp_id g = gid) (sim_groups e) of
        Some g \<Rightarrow> (Inr g, e)
      | None \<Rightarrow> (Inl ''No group with id'', e))"

definition sim_tabGroups_update :: "int \<Rightarrow> string option \<Rightarrow> string option \<Rightarrow> bool \<Rightarrow> sim \<Rightarrow> (string + unit) \<times> sim" where
  "sim_tabGroups_update gid title color collapsed e =
     (Inr (),
      e\<lparr>sim_groups :=
           map (\<lambda>g. if grp_id g = gid
                     then g\<lparr>grp_title := title, grp_color := color, grp_collapsed := collapsed\<rparr> else g)
             (sim_groups e)\<rparr>)"

text \<open>
  A stand-in for the platform's URL parser on plain \<open>scheme://host/path?query\<close> strings:
  the host ends at the first \<open>/\<close> or \<open>?\<close>, the query starts at the first \<open>?\<close>, an
  empty path is \<open>/\<close>; a string without \<open>://\<close> is rejected.
\<close>

fun after_scheme :: "string \<Rightarrow> string option" where
  "after_scheme [] = None"
| "after_scheme (c # cs) = (if prefix ''://'' (c # cs) then Some (drop 3 (c # cs)) else after_scheme cs)"

definition sim_URL :: "string \<Rightarrow> url_parts option" where
  "sim_URL url =
     (case after_scheme url of
        None \<Rightarrow> None
      | Some r \<Rightarrow>
          (let h = takeWhile (\<lambda>c. c \<noteq> CHR ''/'' \<and> c \<noteq> CHR ''?'') r;
               r' = dropWhile (\<lambda>c. c \<noteq> CHR ''/'' \<and> c \<noteq> CHR ''?'') r;
               pth = takeWhile (\<lambda>c. c \<noteq> CHR ''?'') r';
               q = dropWhile (\<lambda>c. c \<noteq> CHR ''?'') r'
           in Some \<lparr> hostname = h, pathname = (if pth = [] then ''/'' else pth), search = q \<rparr>))"

definition sim_chrome :: "sim chrome" where
  "sim_chrome =
     \<lparr> storage_fault = (\<lambda>c e. (None, e)),
       getBytesInUse = (\<lambda>e. (Inr (sim_bytes e), e)),
       windows_getAll = (\<lambda>e. (Inr (sim_windows e), e)),
       windows_get = sim_windows_get,
       windows_create = sim_windows_create,
       tabs_create = sim_tabs_create,
       tabs_query = sim_tabs_query,
       tabs_update_pinned = (\<lambda>i e. (Inr (), sim_map_tabs (\<lambda>t. if tab_id t = i then t\<lparr>tab_pinned := True\<rparr> else t) e)),
       tabs_update_active = (\<lambda>i e. (Inr (), sim_map_tabs (\<lambda>t. if tab_id t = i then t\<lparr>tab_active := True\<rparr> else t) e)),
       tabs_group = sim_tabs_group,
       tabs_ungroup = (\<lambda>ids e. (Inr (), sim_map_tabs (\<lambda>t. if tab_id t \<in> set ids then t\<lparr>tab_groupId := TAB_ID_NONE\<rparr> else t) e)),
       tabGroups_get = sim_tabGroups_get,
       tabGroups_update = sim_tabGroups_update,
       Date_now = (\<lambda>e. (sim_clock e, e\<lparr>sim_clock := sim_clock e + 1\<rparr>)),
       setTimeout = (\<lambda>ms e. ((), e\<lparr>sim_clock := sim_clock e + int ms\<rparr>)),
       loadActiveGroups = (\<lambda>e. ((), e)),
       new_URL = sim_URL \<rparr>"

text \<open>A browser with no windows, and a world around a browser with an empty storage.\<close>

definition sim_empty :: sim where
  "sim_empty = \<lparr> sim_windows = [], sim_groups = [], sim_clock = 1700000000000, sim_next = 1,
                 sim_bytes = 0, sim_max_windows = 10 \<rparr>"

definition world_of :: "sim \<Rightarrow> sim world" where
  "world_of e = \<lparr> store = \<lparr> sessions = None, undoHistory = None, test_key = None \<rparr>, live = e, calls = [] \<rparr>"

subsection \<open>Example data\<close>

definition ex_tabData :: "string \<Rightarrow> tabData" where
  "ex_tabData url = \<lparr> td_url = url, td_title = ''Page'', td_pinned = False, td_active = False,
                       td_originalGroupId = None \<rparr>"

definition ex_session :: "string \<Rightarrow> string \<Rightarrow> int \<Rightarrow> sessionData" where
  "ex_session i name ts =
     \<lparr> s_id = i, s_name = name, s_timestamp = ts,
       s_windows = [\<lparr> wd_id = 1, wd_tabs = [ex_tabData ''https://example.com/a''] \<rparr>],
       s_groups = [] \<rparr>"

definition with_sessions :: "sessionData list \<Rightarrow> 'e world \<Rightarrow> 'e world" where
  "with_sessions ss w = w\<lparr>store := (store w)\<lparr>sessions := Some ss\<rparr>\<rparr>"

text \<open>One user-named session and four recovery sessions, all ids different.\<close>

definition ex_stored :: "sessionData list" where
  "ex_stored =
     [ex_session ''1'' ''Work'' 50,
      ex_session ''2'' ''Recovery (1)'' 10,
      ex_session ''3'' ''Recovery (2)'' 20,
      ex_session ''4'' ''Recovery (3)'' 30,
      ex_session ''5'' ''Recovery (4)'' 40]"

text \<open>The same, but the oldest recovery session has the id of the user-named session.\<close>

definition ex_stored_dup :: "sessionData list" where
  "ex_stored_dup =
     [ex_session ''1'' ''Work'' 50,
      ex_session ''2'' ''Recovery (2)'' 20,
      ex_session ''3'' ''Recovery (3)'' 30,
      ex_session ''4'' ''Recovery (4)'' 40,
      ex_session ''1'' ''Recovery (1)'' 10]"

text \<open>The environments in which \<open>chrome.windows.getAll\<close> never rejects.\<close>

definition windows_reliable :: "'e chrome \<Rightarrow> bool" where
  "windows_reliable ad = (\<forall>e. \<exists>ws. fst (windows_getAll ad e) = Inr ws)"

text \<open>Twenty-five action types, \<open>action-1\<close> to \<open>action-25\<close>.\<close>

definition ex_actions :: "string list" where
  "ex_actions = map (\<lambda>n. ''action-'' @ Number_toString n) [1..25]"

text \<open>The last twenty elements of a list.\<close>

definition last20 :: "'a list \<Rightarrow> 'a list" where
  "last20 xs = drop (length xs - 20) xs"

text \<open>Live tabs for the examples: one still loading, one settled.\<close>

definition ex_loading_tab :: "int \<Rightarrow> string \<Rightarrow> tab" where
  "ex_loading_tab i url = (sim_tab i url)\<lparr>tab_url := None, tab_pendingUrl := Some url\<rparr>"

text \<open>
  What the claims expect of a capture, written from the specification: the records of the
  tabs that are not skipped, and a window record for each window that has such a tab.
\<close>

definition expected_tabs :: "tab list \<Rightarrow> tabData list" where
  "expected_tabs ts =
     concat (map (\<lambda>t. case tab_url t of None \<Rightarrow> []
                        | Some u \<Rightarrow> if skipped_url (Some u) then [] else [mk_tabData t u]) ts)"

definition expected_windows :: "window list \<Rightarrow> windowData list" where
  "expected_windows wins =
     concat (map (\<lambda>win. if expected_tabs (or_empty (win_tabs win)) = [] then []
                         else [\<lparr> wd_id = win_id win, wd_tabs = expected_tabs (or_empty (win_tabs win)) \<rparr>]) wins)"

text \<open>Every URL recorded in a group map can be restored.\<close>

definition urls_ok :: "groupMap \<Rightarrow> bool" where
  "urls_ok gm = (\<forall>(k, gi)\<in>set gm. \<forall>u\<in>set (gi_tabUrls gi). \<not> skipped_url (Some u))"



text \<open>The URLs of the eligible member tabs of group \<open>g\<close>, in enumeration order.\<close>

definition member_urls :: "int \<Rightarrow> tab list \<Rightarrow> string list" where
  "member_urls g ts =
     concat (map (\<lambda>t. case tab_url t of None \<Rightarrow> []
                        | Some u \<Rightarrow> if \<not> skipped_url (Some u) \<and> tab_groupId t = g then [u] else []) ts)"

definition member_urls_windows :: "int \<Rightarrow> window list \<Rightarrow> string list" where
  "member_urls_windows g wins = concat (map (\<lambda>win. member_urls g (or_empty (win_tabs win))) wins)"


text \<open>Every tab of every window is one that the capture loop skips.\<close>

definition all_skipped :: "window list \<Rightarrow> bool" where
  "all_skipped windows = (\<forall>win\<in>set windows. \<forall>t\<in>set (or_empty (win_tabs win)). skipped_url (tab_url t))"

text \<open>
  A browser with two windows: one holds only an internal page; the other holds two pages
  of group 5, an internal page of the same group and a tab without URL.
\<close>

definition ex_tab :: "int \<Rightarrow> string \<Rightarrow> int \<Rightarrow> tab" where
  "ex_tab i url g = (sim_tab i url)\<lparr>tab_groupId := g\<rparr>"

definition ex_browser :: sim where
  "ex_browser = sim_empty
     \<lparr> sim_windows :=
         [\<lparr> win_id = 10, win_tabs = Some [sim_tab 11 ''chrome://settings''] \<rparr>,
          \<lparr> win_id = 20, win_tabs = Some
              [ex_tab 21 ''https://mail.x.com'' 5,
               ex_tab 22 ''chrome://extensions'' 5,
               (sim_tab 23 [])\<lparr>tab_url := None\<rparr>,
               ex_tab 24 ''https://docs.x.com'' 5] \<rparr>],
       sim_groups := [\<lparr> grp_id = 5, grp_title = Some ''Work'', grp_color = Some ''blue'', grp_collapsed = False \<rparr>] \<rparr>"

text \<open>The snapshot that a capture of this browser builds.\<close>

definition ex_snapshot :: "string \<Rightarrow> sessionData" where
  "ex_snapshot name =
     \<lparr> s_id = ''1700000000000'', s_name = name, s_timestamp = 1700000000001,
       s_windows =
         [\<lparr> wd_id = 20, wd_tabs =
             [\<lparr> td_url = ''https://mail.x.com'', td_title = ''Untitled'', td_pinned = False,
                 td_active = False, td_originalGroupId = Some 5 \<rparr>,
              \<lparr> td_url = ''https://docs.x.com'', td_title = ''Untitled'', td_pinned = False,
                 td_active = False, td_originalGroupId = Some 5 \<rparr>] \<rparr>],
       s_groups =
         [\<lparr> gi_originalId = 5, gi_title = ''Work'', gi_color = ''blue'', gi_collapsed = False,
             gi_tabUrls = [''https://mail.x.com'', ''https://docs.x.com''] \<rparr>] \<rparr>"


text \<open>The same browser with all but ten bytes of the quota in use.\<close>

definition ex_browser_full :: sim where
  "ex_browser_full = ex_browser\<lparr>sim_bytes := STORAGE_QUOTA - 10\<rparr>"

text \<open>A browser whose only window holds one internal page, and the snapshot of it.\<close>

definition ex_browser_internal :: sim where
  "ex_browser_internal = sim_empty
     \<lparr> sim_windows := [\<lparr> win_id = 10, win_tabs = Some [sim_tab 11 ''chrome://settings''] \<rparr>] \<rparr>"

definition ex_empty_snapshot :: "string \<Rightarrow> sessionData" where
  "ex_empty_snapshot name =
     \<lparr> s_id = ''1700000000000'', s_name = name, s_timestamp = 1700000000001,
       s_windows = [], s_groups = [] \<rparr>"


text \<open>
  A stored session with two windows, in a world whose browser has no window and lets
  only one window be created.
\<close>

definition ex_two_windows :: sessionData where
  "ex_two_windows =
     \<lparr> s_id = ''7'', s_name = ''Two windows'', s_timestamp = 5,
       s_windows = [\<lparr> wd_id = 1, wd_tabs = [ex_tabData ''https://a.example/''] \<rparr>,
                    \<lparr> wd_id = 2, wd_tabs = [ex_tabData ''https://b.example/''] \<rparr>],
       s_groups = [] \<rparr>"

definition ex_restore_world :: "sim world" where
  "ex_restore_world = with_sessions [ex_two_windows] (world_of (sim_empty\<lparr>sim_max_windows := 1\<rparr>))"

text \<open>
  The world \<open>w'\<close> continues \<open>w\<close> without touching the storage: the store is the same and
  none of the calls made since is a storage write.
\<close>

definition extends :: "'e world \<Rightarrow> 'e world \<Rightarrow> bool" where
  "extends w w' = (store w' = store w \<and> (\<exists>cs. calls w' = calls w @ cs \<and> filter storage_write cs = []))"

text \<open>
  A browser with two windows, each with one grouped tab; an undo history of two entries,
  the last of which records both windows; and an environment in which the tabs of window
  20 cannot be queried, so that the replay fails at the second window.
\<close>

definition ex_undo_browser :: sim where
  "ex_undo_browser = sim_empty
     \<lparr> sim_windows :=
         [\<lparr> win_id = 10, win_tabs = Some [(sim_tab 11 ''https://a.example/'')\<lparr>tab_groupId := 6\<rparr>] \<rparr>,
          \<lparr> win_id = 20, win_tabs = Some [(sim_tab 21 ''https://mail.x.com'')\<lparr>tab_groupId := 5\<rparr>] \<rparr>],
       sim_groups :=
         [\<lparr> grp_id = 5, grp_title = Some ''Work'', grp_color = Some ''blue'', grp_collapsed = False \<rparr>,
          \<lparr> grp_id = 6, grp_title = Some ''News'', grp_color = Some ''red'', grp_collapsed = False \<rparr>],
       sim_next := 100 \<rparr>"

definition ex_entry :: "string \<Rightarrow> int \<Rightarrow> undoEntry" where
  "ex_entry actionType ts =
     \<lparr> ue_type = actionType, ue_timestamp = ts,
       ue_previousGroups =
         [\<lparr> ws_id = 10,
             ws_tabs = [\<lparr> st_id = 11, st_url = Some ''https://a.example/'', st_title = None,
                          st_groupId = Some 6, st_index = 0, st_pinned = None \<rparr>],
             ws_groups = [\<lparr> sg_id = 6, sg_title = Some ''News'', sg_color = Some ''red'',
                            sg_collapsed = False, sg_tabIds = [11] \<rparr>] \<rparr>,
          \<lparr> ws_id = 20,
             ws_tabs = [\<lparr> st_id = 21, st_url = Some ''https://mail.x.com'', st_title = None,
                          st_groupId = Some 5, st_index = 0, st_pinned = None \<rparr>],
             ws_groups = [\<lparr> sg_id = 5, sg_title = Some ''Work'', sg_color = Some ''blue'',
                            sg_collapsed = False, sg_tabIds = [21] \<rparr>] \<rparr>] \<rparr>"

definition ex_undo_world :: "sim world" where
  "ex_undo_world =
     (world_of ex_undo_browser)
       \<lparr>store := \<lparr> sessions = None,
                   undoHistory = Some [ex_entry ''group-by-domain'' 1, ex_entry ''ungroup-all'' 2],
                   test_key = None \<rparr>\<rparr>"

definition ex_chrome_query_fails :: "sim chrome" where
  "ex_chrome_query_fails = sim_chrome
     \<lparr> tabs_query := (\<lambda>wid e. if wid = 20 then (Inl ''No window with id'', e) else sim_tabs_query wid e) \<rparr>"

text \<open>
  A stored session whose first window holds only an internal page, and a stored session
  with no window and no group.
\<close>

definition ex_mixed_session :: sessionData where
  "ex_mixed_session =
     \<lparr> s_id = ''8'', s_name = ''Mixed'', s_timestamp = 6,
       s_windows = [\<lparr> wd_id = 1, wd_tabs = [ex_tabData ''chrome://settings''] \<rparr>,
                    \<lparr> wd_id = 2, wd_tabs = [ex_tabData ''https://b.example/''] \<rparr>],
       s_groups = [] \<rparr>"

definition ex_sessions_world :: "sim world" where
  "ex_sessions_world =
     with_sessions [ex_two_windows, ex_mixed_session, ex_empty_snapshot ''Empty''] (world_of sim_empty)"




subsection \<open>Capture in the background worker: \<open>saveCurrentSessionInline\<close>\<close>

text \<open>
  The objects \<open>saveCurrentSessionInline\<close> of the background worker builds, field by field:
  they differ from those of \<open>saveCurrentSession\<close>. A tab record keeps the tab's id and its
  \<open>url\<close> and \<open>title\<close> as they are (possibly \<open>undefined\<close>), its group is \<open>groupId\<close> (\<open>null\<close>
  is \<open>None\<close>), and a group entry lists tab ids, not URLs.
\<close>

record inlineTabData =
  itd_id :: int
  itd_url :: "string option"
  itd_title :: "string option"
  itd_pinned :: bool
  itd_active :: bool
  itd_groupId :: "int option"

record inlineWindowData =
  iwd_id :: int
  iwd_tabs :: "inlineTabData list"

record inlineGroupInfo =
  igi_id :: int
  igi_title :: "string option"
  igi_color :: "string option"
  igi_collapsed :: bool
  igi_tabIds :: "int list"

record inlineSessionData =
  is_id :: string
  is_name :: string
  is_timestamp :: int
  is_windows :: "inlineWindowData list"
  is_groups :: "inlineGroupInfo list"

text \<open>
  The capture of the background worker, \<open>saveCurrentSessionInline\<close>, which the auto-save
  timer and the window-removal listener call.
\<close>

definition mk_inlineTabData :: "tab \<Rightarrow> inlineTabData" where
  "mk_inlineTabData t =
     \<lparr> itd_id = tab_id t,
       itd_url = tab_url t,
       itd_title = tab_title t,
       itd_pinned = tab_pinned t,
       itd_active = tab_active t,
       itd_groupId = (if tab_groupId t \<noteq> TAB_ID_NONE then Some (tab_groupId t) else None) \<rparr>"

definition mk_inlineGroupInfo :: "tabGroup \<Rightarrow> inlineGroupInfo" where
  "mk_inlineGroupInfo g =
     \<lparr> igi_id = grp_id g,
       igi_title = grp_title g,
       igi_color = grp_color g,
       igi_collapsed = grp_collapsed g,
       igi_tabIds = [] \<rparr>"

type_synonym inlineGroupMap = "(int \<times> inlineGroupInfo) list"

text \<open>
  The group part of the loop body for one grouped tab: fetch the group's metadata unless
  the map already has the group (a failed fetch is logged and sets nothing), then push the
  tab's id onto the entry if there is one.
\<close>

definition collect_group_inline :: "'e chrome \<Rightarrow> int \<Rightarrow> int \<Rightarrow> inlineGroupMap \<times> 'e world \<Rightarrow> inlineGroupMap \<times> 'e world" where
  "collect_group_inline ad gid tid st =
     (case st of (gm, w) \<Rightarrow>
        (case (if map_of gm gid = None then
                 (case invoke (TabGroupsGet gid) (tabGroups_get ad gid) w of
                    (Inr g, w1) \<Rightarrow> (AList.update gid (mk_inlineGroupInfo g) gm, w1)
                  | (Inl err, w1) \<Rightarrow> (gm, w1))
               else (gm, w)) of
           (gm1, w1) \<Rightarrow>
             (case map_of gm1 gid of
                None \<Rightarrow> (gm1, w1)
              | Some groupInfo \<Rightarrow>
                  (AList.update gid (groupInfo\<lparr>igi_tabIds := igi_tabIds groupInfo @ [tid]\<rparr>) gm1, w1))))"

text \<open>
  The loop body for one tab: the record is pushed whatever the tab's URL is; the source
  has no test of \<open>tab.url\<close> here.
\<close>

definition capture_tab_inline :: "'e chrome \<Rightarrow> tab \<Rightarrow> (inlineTabData list \<times> inlineGroupMap) \<times> 'e world \<Rightarrow> (inlineTabData list \<times> inlineGroupMap) \<times> 'e world" where
  "capture_tab_inline ad t st =
     (case st of ((tabs, gm), w) \<Rightarrow>
        (let tabs' = tabs @ [mk_inlineTabData t] in
         if tab_groupId t \<noteq> TAB_ID_NONE then
           (case collect_group_inline ad (tab_groupId t) (tab_id t) (gm, w) of (gm', w') \<Rightarrow> ((tabs', gm'), w'))
         else ((tabs', gm), w)))"

text \<open>
  The loop body for one window: \<open>windowData\<close> is pushed whatever \<open>windowData.tabs\<close> holds;
  a window without \<open>tabs\<close> gets a record with no tab.
\<close>

definition capture_window_inline :: "'e chrome \<Rightarrow> window \<Rightarrow> (inlineWindowData list \<times> inlineGroupMap) \<times> 'e world \<Rightarrow> (inlineWindowData list \<times> inlineGroupMap) \<times> 'e world" where
  "capture_window_inline ad win st =
     (case st of ((wins, gm), w) \<Rightarrow>
        (case fold (capture_tab_inline ad) (or_empty (win_tabs win)) (([], gm), w) of
           ((tabs, gm'), w') \<Rightarrow> ((wins @ [\<lparr> iwd_id = win_id win, iwd_tabs = tabs \<rparr>], gm'), w')))"

text \<open>
  The snapshot \<open>saveCurrentSessionInline\<close> builds, up to
  \<open>sessionData.groups = Array.from(groupMap.values())\<close>. \<open>None\<close> is a rejected
  \<open>chrome.windows.getAll\<close>: the outer \<open>catch\<close> logs it and the function returns \<open>null\<close>.
  The function goes on to read the \<open>sessions\<close> list, push this object and write the list
  back, logging any storage error, and returns the object's id; that step is left out
  here, because the stored list of this model holds objects of the popup's shape.
\<close>

definition saveCurrentSessionInline_snapshot :: "'e chrome \<Rightarrow> string \<Rightarrow> 'e world \<Rightarrow> inlineSessionData option \<times> 'e world" where
  "saveCurrentSessionInline_snapshot ad sessionName w =
     (case invoke WindowsGetAll (windows_getAll ad) w of
        (Inl err, w1) \<Rightarrow> (None, w1)
      | (Inr windows, w1) \<Rightarrow>
     (case invoke DateNow (Date_now ad) w1 of (now1, w2) \<Rightarrow>
     (case invoke DateNow (Date_now ad) w2 of (now2, w3) \<Rightarrow>
     (case fold (capture_window_inline ad) windows (([], []), w3) of ((wins, groupMap), w4) \<Rightarrow>
        (Some \<lparr> is_id = Number_toString now1,
                is_name = sessionName,
                is_timestamp = now2,
                is_windows = wins,
                is_groups = map snd groupMap \<rparr>, w4)))))"

text \<open>The records the background capture makes of a list of windows: all of them.\<close>

definition inline_windows :: "window list \<Rightarrow> inlineWindowData list" where
  "inline_windows windows =
     map (\<lambda>win. \<lparr> iwd_id = win_id win, iwd_tabs = map mk_inlineTabData (or_empty (win_tabs win)) \<rparr>) windows"

section \<open>Properties\<close>

subsection \<open>Sorting and the retention step\<close>

lemma mset_sort_newest_first [simp]: "mset (sort_newest_first ss) = mset ss"
  by (simp add: sort_newest_first_def)

lemma length_sort_newest_first [simp]: "length (sort_newest_first ss) = length ss"
  by (simp add: sort_newest_first_def)

lemma set_sort_newest_first [simp]: "set (sort_newest_first ss) = set ss"
  by (simp add: sort_newest_first_def)

lemma filter_sort_newest_first: "filter P (sort_newest_first ss) = sort_newest_first (filter P ss)"
  by (simp add: sort_newest_first_def filter_sort)

lemma sort_newest_first_idem [simp]: "sort_newest_first (sort_newest_first ss) = sort_newest_first ss"
  by (simp add: sort_newest_first_def sort_key_id_if_sorted)

lemma matching_sessions_sorted: "matching_sessions p (sort_newest_first ss) = matching_sessions p ss"
  by (simp add: matching_sessions_def filter_sort_newest_first)

lemma mset_matching: "mset (matching_sessions p ss) = filter_mset (named p) (mset ss)"
  by (simp add: matching_sessions_def)

lemma find_id_None: "(find (\<lambda>ds. s_id ds = s_id s) ds = None) = (s_id s \<notin> s_id ` set ds)"
  by (force simp: find_None_iff)

lemma remaining_Some:
  "remainingSessions p n ss = Some r \<longleftrightarrow>
     n < length (matching_sessions p ss) \<and>
     r = filter (\<lambda>s. s_id s \<notin> s_id ` set (drop n (matching_sessions p ss))) ss"
  by (auto simp: remainingSessions_def Let_def find_id_None)

lemma remaining_None:
  "remainingSessions p n ss = None \<longleftrightarrow> length (matching_sessions p ss) \<le> n"
  by (auto simp: remainingSessions_def Let_def)

text \<open>After a retention step at most \<open>n\<close> matching sessions are left, whatever the ids.\<close>

lemma length_matching_remaining:
  assumes "remainingSessions p n ss = Some r"
  shows "length (matching_sessions p r) \<le> n"
proof -
  let ?rec = "matching_sessions p ss"
  let ?D = "s_id ` set (drop n ?rec)"
  from assms have r: "r = filter (\<lambda>s. s_id s \<notin> ?D) ss" by (simp add: remaining_Some)
  have "length (matching_sessions p r) = size (filter_mset (named p) (mset r))"
    by (metis mset_matching size_mset)
  also have "\<dots> = size (filter_mset (\<lambda>s. s_id s \<notin> ?D) (filter_mset (named p) (mset ss)))"
    by (simp add: r filter_filter_mset conj_commute)
  also have "\<dots> = size (filter_mset (\<lambda>s. s_id s \<notin> ?D) (mset ?rec))"
    by (simp add: mset_matching)
  also have "\<dots> = length (filter (\<lambda>s. s_id s \<notin> ?D) ?rec)"
    by (metis mset_filter size_mset)
  also have "?rec = take n ?rec @ drop n ?rec" by simp
  then have "length (filter (\<lambda>s. s_id s \<notin> ?D) ?rec)
     = length (filter (\<lambda>s. s_id s \<notin> ?D) (take n ?rec)) + length (filter (\<lambda>s. s_id s \<notin> ?D) (drop n ?rec))"
    by (metis filter_append length_append)
  also have "filter (\<lambda>s. s_id s \<notin> ?D) (drop n ?rec) = []"
    by (auto simp: filter_empty_conv)
  also have "length (filter (\<lambda>s. s_id s \<notin> ?D) (take n ?rec)) + length ([]::sessionData list) \<le> n"
    using length_filter_le [of "\<lambda>s. s_id s \<notin> ?D" "take n ?rec"] by simp
  finally show ?thesis .
qed

subsection \<open>Environment calls and the store\<close>


lemma invoke_store [simp]: "store (snd (invoke c f w)) = store w"
  by (simp add: invoke_def split: prod.splits)

lemma invoke_calls [simp]: "calls (snd (invoke c f w)) = calls w @ [c]"
  by (simp add: invoke_def split: prod.splits)

lemma invoke_fst [simp]: "fst (invoke c f w) = fst (f (live w))"
  by (simp add: invoke_def split: prod.splits)

lemma invoke_live [simp]: "live (snd (invoke c f w)) = snd (f (live w))"
  by (simp add: invoke_def split: prod.splits)

lemma matching_sessions_Nil [simp]: "matching_sessions p [] = []"
  by (simp add: matching_sessions_def sort_newest_first_def)

lemma remaining_Nil [simp]: "remainingSessions p n [] = None"
  by (simp add: remaining_None)

lemma getAllSessions_frame:
  "store (snd (getAllSessions ad w)) = store w"
  "calls (snd (getAllSessions ad w)) = calls w @ [StorageGet K_sessions]"
  by (auto simp: getAllSessions_def storage_get_sessions_def invoke_def split: prod.splits option.splits sum.splits)

lemma getAllSessions_result:
  "fst (getAllSessions ad w) = [] \<or> fst (getAllSessions ad w) = sort_newest_first (stored w)"
  by (auto simp: getAllSessions_def storage_get_sessions_def invoke_def stored_def split: prod.splits option.splits sum.splits)

lemma cleanup_noop:
  assumes "length (matching_sessions ''Recovery ('' (stored w)) \<le> n"
  shows "store (cleanupRecoverySessions ad n w) = store w"
    and "calls (cleanupRecoverySessions ad n w) = calls w @ [StorageGet K_sessions]"
proof -
  obtain ss w1 where g: "getAllSessions ad w = (ss, w1)" by (cases "getAllSessions ad w")
  have "ss = [] \<or> ss = sort_newest_first (stored w)"
    using getAllSessions_result [of ad w] g by simp
  then have "remainingSessions ''Recovery ('' n ss = None"
    using assms by (auto simp: remaining_None matching_sessions_sorted)
  moreover have "store w1 = store w" "calls w1 = calls w @ [StorageGet K_sessions]"
    using getAllSessions_frame [of ad w] g by simp_all
  ultimately show "store (cleanupRecoverySessions ad n w) = store w"
    and "calls (cleanupRecoverySessions ad n w) = calls w @ [StorageGet K_sessions]"
    by (simp_all add: cleanupRecoverySessions_def g)
qed

subsection \<open>Retention\<close>

lemma storage_reliableD: "storage_reliable ad \<Longrightarrow> fst (storage_fault ad c e) = None"
  by (simp add: storage_reliable_def)

lemma sim_reliable: "storage_reliable sim_chrome"
  by (simp add: storage_reliable_def sim_chrome_def)

lemma stored_cleanup:
  assumes "storage_reliable ad"
  shows "stored (cleanupRecoverySessions ad n w) =
     (case remainingSessions ''Recovery ('' n (sort_newest_first (stored w)) of None \<Rightarrow> stored w | Some r \<Rightarrow> r)"
  using storage_reliableD [OF assms, of "StorageGet K_sessions" "live w"]
        storage_reliableD [OF assms, of "StorageSet K_sessions" "snd (storage_fault ad (StorageGet K_sessions) (live w))"]
  by (auto simp: cleanupRecoverySessions_def getAllSessions_def storage_get_sessions_def
        storage_set_sessions_def invoke_def stored_def or_empty_def
      split: prod.splits option.splits sum.splits)

lemma stored_cleanup_inline:
  assumes "storage_reliable ad"
  shows "stored (cleanupRecoverySessionsInline ad w) =
     (case remainingSessions ''Recovery ('' 3 (stored w) of None \<Rightarrow> stored w | Some r \<Rightarrow> r)"
  using storage_reliableD [OF assms, of "StorageGet K_sessions" "live w"]
        storage_reliableD [OF assms, of "StorageSet K_sessions" "snd (storage_fault ad (StorageGet K_sessions) (live w))"]
  by (auto simp: cleanupRecoverySessionsInline_def storage_get_sessions_def
        storage_set_sessions_def invoke_def stored_def or_empty_def
      split: prod.splits option.splits sum.splits)

text \<open>
  Claim C7. Retention is idempotent: after \<open>cleanupRecoverySessions\<close> has run with
  working storage, running it again with the same \<open>maxCount\<close> (3 in the claim, any \<open>n\<close>
  here) leaves the store, and so the stored snapshot list, exactly as the first run left
  it; the second run only reads the list and issues no write, even in an environment
  \<open>ad'\<close> whose storage calls may fail.
\<close>

theorem prune_idempotent:
  assumes "storage_reliable ad"
  shows "store (cleanupRecoverySessions ad' n (cleanupRecoverySessions ad n w)) = store (cleanupRecoverySessions ad n w)
       \<and> calls (cleanupRecoverySessions ad' n (cleanupRecoverySessions ad n w)) =
           calls (cleanupRecoverySessions ad n w) @ [StorageGet K_sessions]"
proof -
  let ?w1 = "cleanupRecoverySessions ad n w"
  have "length (matching_sessions ''Recovery ('' (stored ?w1)) \<le> n"
  proof (cases "remainingSessions ''Recovery ('' n (sort_newest_first (stored w))")
    case None
    have "stored ?w1 = stored w" by (simp add: stored_cleanup [OF assms] None)
    moreover from None have "length (matching_sessions ''Recovery ('' (stored w)) \<le> n"
      by (simp add: remaining_None matching_sessions_sorted)
    ultimately show ?thesis by simp
  next
    case (Some r)
    then show ?thesis
      using length_matching_remaining [OF Some] by (simp add: stored_cleanup [OF assms])
  qed
  then show ?thesis
    using cleanup_noop [of ?w1 n ad'] by simp
qed

theorem prune_idempotent_witness:
  "storage_reliable sim_chrome
   \<and> stored (cleanupRecoverySessions sim_chrome 3 (with_sessions ex_stored (world_of sim_empty))) \<noteq> ex_stored
   \<and> store (cleanupRecoverySessions sim_chrome 3
              (cleanupRecoverySessions sim_chrome 3 (with_sessions ex_stored (world_of sim_empty))))
     = store (cleanupRecoverySessions sim_chrome 3 (with_sessions ex_stored (world_of sim_empty)))"
proof -
  have "stored (cleanupRecoverySessions sim_chrome 3 (with_sessions ex_stored (world_of sim_empty))) \<noteq> ex_stored"
    by code_simp
  then show ?thesis
    using prune_idempotent [OF sim_reliable, of sim_chrome 3 "with_sessions ex_stored (world_of sim_empty)"]
      sim_reliable by simp
qed

lemma distinct_matching:
  assumes "distinct ss" shows "distinct (matching_sessions p ss)"
  using assms by (simp add: matching_sessions_def sort_newest_first_def)

lemma set_matching: "set (matching_sessions p ss) = {s \<in> set ss. named p s}"
  by (simp add: matching_sessions_def)

lemma remaining_distinct_ids:
  assumes d: "distinct (map s_id ss)" and r: "remainingSessions p n ss = Some r"
  shows "r = filter (\<lambda>s. s \<notin> set (drop n (matching_sessions p ss))) ss"
proof -
  let ?rec = "matching_sessions p ss"
  from d have inj: "inj_on s_id (set ss)" by (simp add: distinct_map)
  have sub: "set (drop n ?rec) \<subseteq> set ss"
    using set_drop_subset [of n ?rec] by (auto simp: set_matching)
  have "s_id s \<in> s_id ` set (drop n ?rec) \<longleftrightarrow> s \<in> set (drop n ?rec)" if "s \<in> set ss" for s
    using that sub inj by (auto dest: inj_onD)
  then have "filter (\<lambda>s. s_id s \<notin> s_id ` set (drop n ?rec)) ss = filter (\<lambda>s. s \<notin> set (drop n ?rec)) ss"
    by (intro filter_cong) auto
  with r show ?thesis by (simp add: remaining_Some)
qed

lemma remaining_frame:
  assumes d: "distinct (map s_id ss)" and r: "remainingSessions p n ss = Some r"
  shows "filter (\<lambda>s. \<not> named p s) r = filter (\<lambda>s. \<not> named p s) ss"
proof -
  have "s \<notin> set (drop n (matching_sessions p ss))" if "\<not> named p s" for s
    using that set_drop_subset [of n "matching_sessions p ss"] by (auto simp: set_matching)
  then show ?thesis
    unfolding remaining_distinct_ids [OF d r] filter_filter
    by (intro filter_cong) auto
qed

lemma remaining_newest:
  assumes d: "distinct (map s_id ss)" and r: "remainingSessions p n ss = Some r"
  shows "mset (filter (named p) r) = mset (take n (matching_sessions p ss))"
proof -
  let ?rec = "matching_sessions p ss"
  let ?keep = "\<lambda>s. s \<notin> set (drop n ?rec)"
  from d have "distinct ss" by (simp add: distinct_map)
  then have drec: "distinct ?rec" by (rule distinct_matching)
  have "mset (filter (named p) r) = filter_mset ?keep (filter_mset (named p) (mset ss))"
    unfolding remaining_distinct_ids [OF d r] by (simp add: filter_filter_mset conj_commute)
  also have "\<dots> = mset (filter ?keep ?rec)"
    by (simp add: mset_matching)
  also have "filter ?keep ?rec = filter ?keep (take n ?rec) @ filter ?keep (drop n ?rec)"
    by (metis append_take_drop_id filter_append)
  also have "filter ?keep (drop n ?rec) = []"
    by (simp add: filter_empty_conv)
  also have "filter ?keep (take n ?rec) = take n ?rec"
  proof -
    have "set (take n ?rec) \<inter> set (drop n ?rec) = {}"
      using drec by (metis append_take_drop_id distinct_append)
    then show ?thesis by (auto simp: filter_id_conv)
  qed
  finally show ?thesis by simp
qed

lemma matching_newest_first:
  assumes "a \<in> set (take n (matching_sessions p ss))" "b \<in> set (drop n (matching_sessions p ss))"
  shows "s_timestamp b \<le> s_timestamp a"
proof -
  let ?rec = "matching_sessions p ss"
  have "sorted (map (\<lambda>s. - s_timestamp s) ?rec)"
    by (simp add: matching_sessions_def sort_newest_first_def)
  then have "sorted (map (\<lambda>s. - s_timestamp s) (take n ?rec) @ map (\<lambda>s. - s_timestamp s) (drop n ?rec))"
    by (metis append_take_drop_id map_append)
  then have "\<forall>x\<in>set (take n ?rec). \<forall>y\<in>set (drop n ?rec). - s_timestamp x \<le> - s_timestamp y"
    by (auto simp: sorted_append)
  with assms show ?thesis by auto
qed

text \<open>The outcome of one retention step on a list, whether or not it writes.\<close>

lemma retention_outcome:
  assumes d: "distinct (map s_id ss)"
  shows "mset (filter (\<lambda>s. \<not> named p s) (case remainingSessions p n ss of None \<Rightarrow> ss | Some r \<Rightarrow> r))
           = mset (filter (\<lambda>s. \<not> named p s) ss)"
    and "mset (filter (named p) (case remainingSessions p n ss of None \<Rightarrow> ss | Some r \<Rightarrow> r))
           = mset (take n (matching_sessions p ss))"
proof -
  show "mset (filter (\<lambda>s. \<not> named p s) (case remainingSessions p n ss of None \<Rightarrow> ss | Some r \<Rightarrow> r))
           = mset (filter (\<lambda>s. \<not> named p s) ss)"
    using remaining_frame [OF d] by (cases "remainingSessions p n ss") simp_all
  show "mset (filter (named p) (case remainingSessions p n ss of None \<Rightarrow> ss | Some r \<Rightarrow> r))
           = mset (take n (matching_sessions p ss))"
  proof (cases "remainingSessions p n ss")
    case None
    then have "take n (matching_sessions p ss) = matching_sessions p ss"
      by (simp add: remaining_None)
    with None show ?thesis by (simp add: mset_matching)
  next
    case (Some r)
    then show ?thesis using remaining_newest [OF d Some] by simp
  qed
qed

text \<open>
  Claim C8, amended. Provided the ids of the stored snapshots are pairwise distinct and
  the storage calls succeed, retention leaves every snapshot whose name does not start
  with the prefix in the stored list, unchanged, and of the snapshots whose name starts
  with the prefix exactly the \<open>n\<close> newest by timestamp remain (all of them if there are at
  most \<open>n\<close>): for \<open>cleanupRecoverySessions\<close> with any \<open>maxCount\<close>, for
  \<open>cleanupRecoverySessionsInline\<close> with its 3, and for the retention step with any prefix
  \<open>p\<close>. No kept snapshot is older than a removed one.
\<close>

theorem prune_keeps_other_sessions:
  assumes d: "distinct (map s_id (stored w))" and ok: "storage_reliable ad"
  shows "mset (filter (\<lambda>s. \<not> named ''Recovery ('' s) (stored (cleanupRecoverySessions ad n w)))
           = mset (filter (\<lambda>s. \<not> named ''Recovery ('' s) (stored w))
       \<and> mset (filter (named ''Recovery ('') (stored (cleanupRecoverySessions ad n w)))
           = mset (take n (matching_sessions ''Recovery ('' (stored w)))
       \<and> mset (filter (\<lambda>s. \<not> named ''Recovery ('' s) (stored (cleanupRecoverySessionsInline ad w)))
           = mset (filter (\<lambda>s. \<not> named ''Recovery ('' s) (stored w))
       \<and> mset (filter (named ''Recovery ('') (stored (cleanupRecoverySessionsInline ad w)))
           = mset (take 3 (matching_sessions ''Recovery ('' (stored w)))
       \<and> mset (filter (\<lambda>s. \<not> named p s) (case remainingSessions p n (stored w) of None \<Rightarrow> stored w | Some r \<Rightarrow> r))
           = mset (filter (\<lambda>s. \<not> named p s) (stored w))
       \<and> mset (filter (named p) (case remainingSessions p n (stored w) of None \<Rightarrow> stored w | Some r \<Rightarrow> r))
           = mset (take n (matching_sessions p (stored w)))
       \<and> (\<forall>a\<in>set (take n (matching_sessions p (stored w))).
            \<forall>b\<in>set (drop n (matching_sessions p (stored w))). s_timestamp b \<le> s_timestamp a)"
proof -
  let ?R = "''Recovery (''"
  have ds: "distinct (map s_id (sort_newest_first (stored w)))"
    using d by (simp add: distinct_map sort_newest_first_def)
  have 1: "mset (filter (\<lambda>s. \<not> named ?R s) (stored (cleanupRecoverySessions ad n w)))
           = mset (filter (\<lambda>s. \<not> named ?R s) (stored w))"
    using retention_outcome(1) [OF ds, of ?R n] by (simp add: stored_cleanup [OF ok] split: option.splits)
  have 2: "mset (filter (named ?R) (stored (cleanupRecoverySessions ad n w)))
           = mset (take n (matching_sessions ?R (stored w)))"
    using retention_outcome(2) [OF ds, of ?R n]
    by (simp add: stored_cleanup [OF ok] matching_sessions_sorted filter_sort_newest_first split: option.splits)
  have 3: "mset (filter (\<lambda>s. \<not> named ?R s) (stored (cleanupRecoverySessionsInline ad w)))
           = mset (filter (\<lambda>s. \<not> named ?R s) (stored w))"
    using retention_outcome(1) [OF d, of ?R 3] by (simp add: stored_cleanup_inline [OF ok])
  have 4: "mset (filter (named ?R) (stored (cleanupRecoverySessionsInline ad w)))
           = mset (take 3 (matching_sessions ?R (stored w)))"
    using retention_outcome(2) [OF d, of ?R 3] by (simp add: stored_cleanup_inline [OF ok])
  show ?thesis
    using 1 2 3 4 retention_outcome [OF d, of p n] matching_newest_first [of _ n p "stored w"]
    by blast
qed

text \<open>
  Without distinct ids the claim fails: the removal is by id, so a user-named snapshot that
  shares its id with a pruned recovery snapshot is removed with it.
\<close>

theorem prune_removes_other_session_counterexample:
  "ex_session ''1'' ''Work'' 50 \<in> set (stored (with_sessions ex_stored_dup (world_of sim_empty)))
   \<and> \<not> named ''Recovery ('' (ex_session ''1'' ''Work'' 50)
   \<and> ex_session ''1'' ''Work'' 50 \<notin>
        set (stored (cleanupRecoverySessions sim_chrome 3 (with_sessions ex_stored_dup (world_of sim_empty))))"
  by code_simp

theorem prune_keeps_other_sessions_witness:
  "distinct (map s_id (stored (with_sessions ex_stored (world_of sim_empty))))
   \<and> storage_reliable sim_chrome
   \<and> mset (filter (\<lambda>s. \<not> named ''Recovery ('' s)
              (stored (cleanupRecoverySessions sim_chrome 3 (with_sessions ex_stored (world_of sim_empty)))))
         = mset [ex_session ''1'' ''Work'' 50]
   \<and> mset (filter (named ''Recovery ('')
              (stored (cleanupRecoverySessions sim_chrome 3 (with_sessions ex_stored (world_of sim_empty)))))
         = mset [ex_session ''5'' ''Recovery (4)'' 40, ex_session ''4'' ''Recovery (3)'' 30,
                 ex_session ''3'' ''Recovery (2)'' 20]
   \<and> ex_session ''3'' ''Recovery (2)'' 20
         \<in> set (take 3 (matching_sessions ''Recovery ('' (stored (with_sessions ex_stored (world_of sim_empty)))))
   \<and> ex_session ''2'' ''Recovery (1)'' 10
         \<in> set (drop 3 (matching_sessions ''Recovery ('' (stored (with_sessions ex_stored (world_of sim_empty)))))
   \<and> s_timestamp (ex_session ''2'' ''Recovery (1)'' 10) \<le> s_timestamp (ex_session ''3'' ''Recovery (2)'' 20)"
proof -
  let ?W = "with_sessions ex_stored (world_of sim_empty)"
  have d: "distinct (map s_id (stored ?W))" by code_simp
  have f: "filter (\<lambda>s. \<not> named ''Recovery ('' s) (stored ?W) = [ex_session ''1'' ''Work'' 50]"
    by code_simp
  have t: "take 3 (matching_sessions ''Recovery ('' (stored ?W))
             = [ex_session ''5'' ''Recovery (4)'' 40, ex_session ''4'' ''Recovery (3)'' 30,
                ex_session ''3'' ''Recovery (2)'' 20]"
    by code_simp
  have dr: "drop 3 (matching_sessions ''Recovery ('' (stored ?W)) = [ex_session ''2'' ''Recovery (1)'' 10]"
    by code_simp
  show ?thesis
    using prune_keeps_other_sessions [OF d sim_reliable, of 3 "''Recovery (''"] d sim_reliable
    unfolding f t dr by simp
qed

subsection \<open>The undo history is bounded\<close>

lemma length_push_bounded: "length h \<le> 20 \<Longrightarrow> length (push_bounded h e) \<le> 20"
  by (cases h) (auto simp: push_bounded_def Let_def)

lemma storage_get_undoHistory_cases:
  "storage_get_undoHistory ad w = (r, w') \<Longrightarrow>
     store w' = store w \<and> (r = Inr (undoHistory (store w)) \<or> (\<exists>m. r = Inl m))"
  by (auto simp: storage_get_undoHistory_def invoke_def split: prod.splits option.splits)

lemma storage_set_undoHistory_cases:
  "undo_history (snd (storage_set_undoHistory ad v w)) = v \<or>
   undo_history (snd (storage_set_undoHistory ad v w)) = undo_history w"
  by (auto simp: storage_set_undoHistory_def invoke_def undo_history_def or_empty_def split: prod.splits option.splits)

lemma capture_saved_group_store [simp]:
  "store (snd (capture_saved_group ad tabs g st)) = store (snd st)"
  by (auto simp: capture_saved_group_def invoke_def split: prod.splits sum.splits)

lemma fold_capture_saved_group_store [simp]:
  "store (snd (fold (capture_saved_group ad tabs) gs st)) = store (snd st)"
  by (induction gs arbitrary: st) simp_all

lemma capture_windowState_store [simp]:
  "store (snd (capture_windowState ad b win st)) = store (snd st)"
proof -
  obtain ws w where st: "st = (ws, w)" by (cases st)
  show ?thesis
  proof (cases "win_tabs win")
    case None
    then show ?thesis by (simp add: capture_windowState_def st)
  next
    case (Some tabs)
    obtain gs w' where f: "fold (capture_saved_group ad tabs) (groupIds tabs) ([], w) = (gs, w')"
      by (cases "fold (capture_saved_group ad tabs) (groupIds tabs) ([], w)")
    have "store w' = store w"
      using fold_capture_saved_group_store [of ad tabs "groupIds tabs" "([], w)"] f by simp
    then show ?thesis by (simp add: capture_windowState_def st Some f)
  qed
qed

lemma fold_capture_windowState_store [simp]:
  "store (snd (fold (capture_windowState ad b) wins st)) = store (snd st)"
  by (induction wins arbitrary: st) simp_all

lemma undo_history_store: "store w' = store w \<Longrightarrow> undo_history w' = undo_history w"
  by (simp add: undo_history_def)

lemma saveUndoState_cases:
  "undo_history (saveUndoState ad t w) = undo_history w \<or>
   (\<exists>e. ue_type e = t \<and> undo_history (saveUndoState ad t w) = push_bounded (undo_history w) e)"
proof (cases "storage_get_undoHistory ad w")
  case (Pair r w1)
  note g = storage_get_undoHistory_cases [OF Pair]
  show ?thesis
  proof (cases r)
    case (Inl m)
    then show ?thesis using g Pair by (simp add: saveUndoState_def undo_history_def)
  next
    case (Inr result)
    then have res: "or_empty result = undo_history w" using g by (auto simp: undo_history_def)
    obtain r2 w2 where ga: "invoke WindowsGetAll (windows_getAll ad) w1 = (r2, w2)"
      by (cases "invoke WindowsGetAll (windows_getAll ad) w1")
    have s2: "store w2 = store w" using ga g invoke_store [of WindowsGetAll "windows_getAll ad" w1] by simp
    show ?thesis
    proof (cases r2)
      case (Inl m)
      then show ?thesis using Pair Inr ga s2 by (simp add: saveUndoState_def undo_history_def)
    next
      case (Inr windows)
      obtain state w3 where cw: "fold (capture_windowState ad False) windows ([], w2) = (state, w3)"
        by (cases "fold (capture_windowState ad False) windows ([], w2)")
      have s3: "store w3 = store w"
        using fold_capture_windowState_store [of ad False windows "([], w2)"] cw s2 by simp
      obtain now w4 where dn: "invoke DateNow (Date_now ad) w3 = (now, w4)"
        by (cases "invoke DateNow (Date_now ad) w3")
      have s4: "store w4 = store w" using dn s3 invoke_store [of DateNow "Date_now ad" w3] by simp
      let ?e = "\<lparr> ue_type = t, ue_timestamp = now, ue_previousGroups = state \<rparr>"
      have "saveUndoState ad t w = snd (storage_set_undoHistory ad (push_bounded (undo_history w) ?e) w4)"
        using Pair \<open>r = Inr result\<close> ga Inr cw dn res by (simp add: saveUndoState_def)
      moreover have "undo_history w4 = undo_history w" using s4 by (rule undo_history_store)
      ultimately show ?thesis
        using storage_set_undoHistory_cases [of ad "push_bounded (undo_history w) ?e" w4]
        by (metis undoEntry.select_convs(1))
    qed
  qed
qed

lemma storage_get_undoHistory_ok:
  assumes "storage_reliable ad"
  shows "fst (storage_get_undoHistory ad w) = Inr (undoHistory (store w))"
    and "store (snd (storage_get_undoHistory ad w)) = store w"
  using storage_reliableD [OF assms, of "StorageGet K_undoHistory" "live w"]
  by (auto simp: storage_get_undoHistory_def invoke_def split: prod.splits option.splits)

lemma storage_set_undoHistory_ok:
  assumes "storage_reliable ad"
  shows "fst (storage_set_undoHistory ad v w) = Inr ()"
    and "undo_history (snd (storage_set_undoHistory ad v w)) = v"
  using storage_reliableD [OF assms, of "StorageSet K_undoHistory" "live w"]
  by (auto simp: storage_set_undoHistory_def invoke_def undo_history_def or_empty_def split: prod.splits option.splits)

lemma saveUndoState_pushes:
  assumes ok: "storage_reliable ad" and wr: "windows_reliable ad"
  shows "\<exists>e. ue_type e = t \<and> undo_history (saveUndoState ad t w) = push_bounded (undo_history w) e"
proof -
  obtain r w1 where g: "storage_get_undoHistory ad w = (r, w1)" by (cases "storage_get_undoHistory ad w")
  have r: "r = Inr (undoHistory (store w))" and s1: "store w1 = store w"
    using storage_get_undoHistory_ok [OF ok, of w] g by simp_all
  obtain r2 w2 where ga: "invoke WindowsGetAll (windows_getAll ad) w1 = (r2, w2)"
    by (cases "invoke WindowsGetAll (windows_getAll ad) w1")
  from wr obtain windows where "fst (windows_getAll ad (live w1)) = Inr windows"
    unfolding windows_reliable_def by blast
  then have r2: "r2 = Inr windows" using ga invoke_fst [of WindowsGetAll "windows_getAll ad" w1] by simp
  obtain state w3 where cw: "fold (capture_windowState ad False) windows ([], w2) = (state, w3)"
    by (cases "fold (capture_windowState ad False) windows ([], w2)")
  obtain now w4 where dn: "invoke DateNow (Date_now ad) w3 = (now, w4)"
    by (cases "invoke DateNow (Date_now ad) w3")
  let ?e = "\<lparr> ue_type = t, ue_timestamp = now, ue_previousGroups = state \<rparr>"
  have "saveUndoState ad t w = snd (storage_set_undoHistory ad (push_bounded (undo_history w) ?e) w4)"
    using g r ga r2 cw dn by (simp add: saveUndoState_def undo_history_def)
  then have "undo_history (saveUndoState ad t w) = push_bounded (undo_history w) ?e"
    by (simp add: storage_set_undoHistory_ok [OF ok])
  then show ?thesis by (intro exI [of _ ?e]) simp
qed

lemma captureCurrentGroupsInline_store [simp]:
  "store (snd (captureCurrentGroupsInline ad w)) = store w"
proof (cases "invoke WindowsGetAll (windows_getAll ad) w")
  case (Pair r w1)
  then have "store w1 = store w" using invoke_store [of WindowsGetAll "windows_getAll ad" w] by simp
  then show ?thesis
    using Pair fold_capture_windowState_store [of ad True _ "([], w1)"]
    by (cases r) (simp_all add: captureCurrentGroupsInline_def)
qed

lemma saveUndoStateInline_cases:
  "undo_history (snd (saveUndoStateInline ad t w)) = undo_history w \<or>
   (\<exists>e. ue_type e = t \<and> undo_history (snd (saveUndoStateInline ad t w)) = push_bounded (undo_history w) e)"
proof (cases "storage_get_undoHistory ad w")
  case (Pair r w1)
  note g = storage_get_undoHistory_cases [OF Pair]
  show ?thesis
  proof (cases r)
    case (Inl m)
    then show ?thesis using g Pair by (simp add: saveUndoStateInline_def undo_history_def)
  next
    case (Inr result)
    then have res: "or_empty result = undo_history w" using g by (auto simp: undo_history_def)
    obtain now w2 where dn: "invoke DateNow (Date_now ad) w1 = (now, w2)"
      by (cases "invoke DateNow (Date_now ad) w1")
    have s2: "store w2 = store w" using dn g invoke_store [of DateNow "Date_now ad" w1] by simp
    obtain state w3 where cw: "captureCurrentGroupsInline ad w2 = (state, w3)"
      by (cases "captureCurrentGroupsInline ad w2")
    have s3: "store w3 = store w" using captureCurrentGroupsInline_store [of ad w2] cw s2 by simp
    let ?e = "\<lparr> ue_type = t, ue_timestamp = now, ue_previousGroups = state \<rparr>"
    have "snd (saveUndoStateInline ad t w) = snd (storage_set_undoHistory ad (push_bounded (undo_history w) ?e) w3)"
      using Pair Inr dn cw res by (simp add: saveUndoStateInline_def split: prod.splits sum.splits)
    moreover have "undo_history w3 = undo_history w" using s3 by (rule undo_history_store)
    ultimately show ?thesis
      using storage_set_undoHistory_cases [of ad "push_bounded (undo_history w) ?e" w3]
      by (metis undoEntry.select_convs(1))
  qed
qed

lemma saveUndoStateInline_pushes:
  assumes ok: "storage_reliable ad"
  shows "fst (saveUndoStateInline ad t w) \<and>
         (\<exists>e. ue_type e = t \<and> undo_history (snd (saveUndoStateInline ad t w)) = push_bounded (undo_history w) e)"
proof -
  obtain r w1 where g: "storage_get_undoHistory ad w = (r, w1)" by (cases "storage_get_undoHistory ad w")
  have r: "r = Inr (undoHistory (store w))" and s1: "store w1 = store w"
    using storage_get_undoHistory_ok [OF ok, of w] g by simp_all
  obtain now w2 where dn: "invoke DateNow (Date_now ad) w1 = (now, w2)"
    by (cases "invoke DateNow (Date_now ad) w1")
  obtain state w3 where cw: "captureCurrentGroupsInline ad w2 = (state, w3)"
    by (cases "captureCurrentGroupsInline ad w2")
  let ?e = "\<lparr> ue_type = t, ue_timestamp = now, ue_previousGroups = state \<rparr>"
  let ?set = "storage_set_undoHistory ad (push_bounded (undo_history w) ?e) w3"
  have "saveUndoStateInline ad t w = (case ?set of (Inl err, w4) \<Rightarrow> (False, w4) | (Inr _, w4) \<Rightarrow> (True, w4))"
    using g r dn cw by (simp add: saveUndoStateInline_def undo_history_def)
  moreover obtain w4 where "?set = (Inr (), w4)"
    using storage_set_undoHistory_ok(1) [OF ok, of "push_bounded (undo_history w) ?e" w3]
    by (cases ?set) auto
  ultimately have "saveUndoStateInline ad t w = (True, snd ?set)" by simp
  then show ?thesis
    using storage_set_undoHistory_ok(2) [OF ok, of "push_bounded (undo_history w) ?e" w3]
    by (auto intro: exI [of _ ?e])
qed

lemma push_bounded_eq:
  "length h \<le> 20 \<Longrightarrow> push_bounded h e = last20 (h @ [e])"
proof (cases "length h = 20")
  case True
  then have "h \<noteq> []" by auto
  then have "tl (h @ [e]) = drop 1 (h @ [e])" by (cases h) simp_all
  with True show ?thesis by (simp add: push_bounded_def Let_def last20_def)
next
  case False
  assume "length h \<le> 20"
  with False show ?thesis by (simp add: push_bounded_def Let_def last20_def)
qed

lemma map_last20: "map f (last20 xs) = last20 (map f xs)"
  by (simp add: last20_def drop_map)

lemma push_bounded_types:
  "length h \<le> 20 \<Longrightarrow> map ue_type (push_bounded h e) = last20 (map ue_type h @ [ue_type e])"
  by (simp add: push_bounded_eq map_last20)

lemma last20_append: "last20 (last20 xs @ ys) = last20 (xs @ ys)"
proof (cases "length xs \<le> 20")
  case True
  then show ?thesis by (simp add: last20_def)
next
  case False
  then have "length xs + length ys - (length xs - 20 + 20) + (length xs - 20) = length xs + length ys - 20"
    by arith
  with False show ?thesis by (simp add: last20_def)
qed

lemma last20_short: "length xs \<le> 20 \<Longrightarrow> last20 xs = xs"
  by (simp add: last20_def)

lemma fold_saveUndoState:
  assumes ok: "storage_reliable ad" and wr: "windows_reliable ad"
  shows "length (undo_history w) \<le> 20 \<Longrightarrow>
     map ue_type (undo_history (fold (saveUndoState ad) ts w)) = last20 (map ue_type (undo_history w) @ ts)"
proof (induction ts arbitrary: w)
  case Nil
  then show ?case by (simp add: last20_short)
next
  case (Cons t ts)
  from saveUndoState_pushes [OF ok wr, of t w] obtain e where
    e: "ue_type e = t" "undo_history (saveUndoState ad t w) = push_bounded (undo_history w) e" by blast
  have len: "length (undo_history (saveUndoState ad t w)) \<le> 20"
    using Cons.prems e by (simp add: length_push_bounded)
  show ?case
    using Cons.IH [OF len] e Cons.prems
    by (simp add: push_bounded_types last20_append)
qed

lemma fold_saveUndoStateInline:
  assumes ok: "storage_reliable ad"
  shows "length (undo_history w) \<le> 20 \<Longrightarrow>
     map ue_type (undo_history (fold (\<lambda>t w. snd (saveUndoStateInline ad t w)) ts w))
       = last20 (map ue_type (undo_history w) @ ts)"
proof (induction ts arbitrary: w)
  case Nil
  then show ?case by (simp add: last20_short)
next
  case (Cons t ts)
  from saveUndoStateInline_pushes [OF ok, of t w] obtain e where
    e: "ue_type e = t" "undo_history (snd (saveUndoStateInline ad t w)) = push_bounded (undo_history w) e" by blast
  have len: "length (undo_history (snd (saveUndoStateInline ad t w))) \<le> 20"
    using Cons.prems e by (simp add: length_push_bounded)
  show ?case
    using Cons.IH [OF len] e Cons.prems
    by (simp add: push_bounded_types last20_append)
qed

text \<open>
  Claim C3. A history of at most 20 entries still has at most 20 after \<open>saveUndoState\<close>
  or \<open>saveUndoStateInline\<close>, in any environment. When storage and window enumeration
  work, pushing the action types \<open>ts\<close> one after the other onto an empty history leaves
  the entries of exactly the last 20 of them, in order (the oldest were evicted first): for
  25 pushes, the entries of the last 20.
\<close>

theorem undo_history_bounded:
  "(length (undo_history w) \<le> 20 \<longrightarrow>
      length (undo_history (saveUndoState ad t w)) \<le> 20 \<and>
      length (undo_history (snd (saveUndoStateInline ad t w))) \<le> 20)
   \<and> (storage_reliable ad \<and> windows_reliable ad \<and> undo_history w = [] \<longrightarrow>
        map ue_type (undo_history (fold (saveUndoState ad) ts w)) = drop (length ts - 20) ts \<and>
        map ue_type (undo_history (fold (\<lambda>t w. snd (saveUndoStateInline ad t w)) ts w)) = drop (length ts - 20) ts)"
proof -
  have "length (undo_history (saveUndoState ad t w)) \<le> 20" if "length (undo_history w) \<le> 20"
    using saveUndoState_cases [of ad t w] that length_push_bounded by auto
  moreover have "length (undo_history (snd (saveUndoStateInline ad t w))) \<le> 20" if "length (undo_history w) \<le> 20"
    using saveUndoStateInline_cases [of ad t w] that length_push_bounded by auto
  moreover have "map ue_type (undo_history (fold (saveUndoState ad) ts w)) = drop (length ts - 20) ts"
    if "storage_reliable ad" "windows_reliable ad" "undo_history w = []"
    using fold_saveUndoState [OF that(1,2), of w ts] that(3) by (simp add: last20_def)
  moreover have "map ue_type (undo_history (fold (\<lambda>t w. snd (saveUndoStateInline ad t w)) ts w)) = drop (length ts - 20) ts"
    if "storage_reliable ad" "undo_history w = []"
    using fold_saveUndoStateInline [OF that(1), of w ts] that(2) by (simp add: last20_def)
  ultimately show ?thesis by blast
qed

lemma sim_windows_reliable: "windows_reliable sim_chrome"
  by (simp add: windows_reliable_def sim_chrome_def)

theorem undo_history_bounded_witness:
  "length (undo_history (world_of sim_empty)) \<le> 20
   \<and> storage_reliable sim_chrome \<and> windows_reliable sim_chrome
   \<and> undo_history (world_of sim_empty) = []
   \<and> length ex_actions = 25
   \<and> length (undo_history (saveUndoState sim_chrome ''group-by-domain'' (world_of sim_empty))) \<le> 20
   \<and> map ue_type (undo_history (fold (saveUndoState sim_chrome) ex_actions (world_of sim_empty)))
       = drop 5 ex_actions
   \<and> length (undo_history (fold (saveUndoState sim_chrome) ex_actions (world_of sim_empty))) = 20
   \<and> map ue_type (undo_history (fold (\<lambda>t w. snd (saveUndoStateInline sim_chrome t w)) ex_actions (world_of sim_empty)))
       = drop 5 ex_actions"
proof -
  let ?W = "world_of sim_empty"
  have h: "undo_history ?W = []" by code_simp
  have l: "length ex_actions = 25" by code_simp
  note inst = undo_history_bounded [of ?W sim_chrome "''group-by-domain''" ex_actions]
  have a: "length (undo_history (saveUndoState sim_chrome ''group-by-domain'' ?W)) \<le> 20"
    using inst h by simp
  have b: "map ue_type (undo_history (fold (saveUndoState sim_chrome) ex_actions ?W)) = drop 5 ex_actions"
    using inst h sim_reliable sim_windows_reliable by (simp add: l)
  have c: "map ue_type (undo_history (fold (\<lambda>t w. snd (saveUndoStateInline sim_chrome t w)) ex_actions ?W)) = drop 5 ex_actions"
    using inst h sim_reliable sim_windows_reliable by (simp add: l)
  have "length (map ue_type (undo_history (fold (saveUndoState sim_chrome) ex_actions ?W))) = 20"
    unfolding b by (simp add: l)
  then have d: "length (undo_history (fold (saveUndoState sim_chrome) ex_actions ?W)) = 20" by simp
  show ?thesis using h l a b c d sim_reliable sim_windows_reliable by simp
qed

subsection \<open>Identity reconciliation\<close>

lemma find_Some_in: "find P xs = Some x \<Longrightarrow> x \<in> set xs \<and> P x"
  by (auto simp: find_Some_iff)

lemma find_exists: "\<exists>x\<in>set xs. P x \<Longrightarrow> \<exists>x\<in>set xs. find P xs = Some x \<and> P x"
proof -
  assume "\<exists>x\<in>set xs. P x"
  then have "find P xs \<noteq> None" by (auto simp: find_None_iff)
  then obtain x where "find P xs = Some x" by blast
  then show ?thesis using find_Some_in by fastforce
qed

text \<open>
  Claim C6. \<open>findTabByUrl\<close> follows the three-tier chain: a tab whose \<open>url\<close> is exactly the
  recorded URL if there is one; otherwise a tab whose \<open>pendingUrl\<close> is exactly the recorded
  URL if there is one; otherwise a tab whose normalized \<open>url || pendingUrl || ''\<close> equals the
  normalized recorded URL if there is one; otherwise no tab. The normalization of a string
  that the platform's parser accepts is its hostname followed by its path and its query,
  so the scheme (and port, user and fragment) play no part; a string that the parser
  rejects is its own normalization. What is normalized for a live tab is its \<open>url\<close> if that
  is a non-empty string, else its \<open>pendingUrl\<close> if that is one, else the empty string.
\<close>

theorem findTabByUrl_fallback_chain:
  "((\<exists>t\<in>set tabs. tab_url t = Some u) \<longrightarrow>
      (\<exists>t\<in>set tabs. findTabByUrl parse tabs u = Some t \<and> tab_url t = Some u))
   \<and> (\<not> (\<exists>t\<in>set tabs. tab_url t = Some u) \<and> (\<exists>t\<in>set tabs. tab_pendingUrl t = Some u) \<longrightarrow>
      (\<exists>t\<in>set tabs. findTabByUrl parse tabs u = Some t \<and> tab_pendingUrl t = Some u))
   \<and> (\<not> (\<exists>t\<in>set tabs. tab_url t = Some u) \<and> \<not> (\<exists>t\<in>set tabs. tab_pendingUrl t = Some u)
       \<and> (\<exists>t\<in>set tabs. normalizeUrl parse (url_or_pending t) = normalizeUrl parse u) \<longrightarrow>
      (\<exists>t\<in>set tabs. findTabByUrl parse tabs u = Some t
          \<and> normalizeUrl parse (url_or_pending t) = normalizeUrl parse u))
   \<and> (\<not> (\<exists>t\<in>set tabs. tab_url t = Some u) \<and> \<not> (\<exists>t\<in>set tabs. tab_pendingUrl t = Some u)
       \<and> \<not> (\<exists>t\<in>set tabs. normalizeUrl parse (url_or_pending t) = normalizeUrl parse u) \<longrightarrow>
      findTabByUrl parse tabs u = None)
   \<and> (\<forall>x p. parse x = Some p \<longrightarrow> normalizeUrl parse x = hostname p @ pathname p @ search p)
   \<and> (\<forall>x. parse x = None \<longrightarrow> normalizeUrl parse x = x)
   \<and> (\<forall>t s. tab_url t = Some s \<and> s \<noteq> [] \<longrightarrow> url_or_pending t = s)
   \<and> (\<forall>t s. (tab_url t = None \<or> tab_url t = Some []) \<and> tab_pendingUrl t = Some s \<and> s \<noteq> [] \<longrightarrow>
         url_or_pending t = s)
   \<and> (\<forall>t. (tab_url t = None \<or> tab_url t = Some [])
           \<and> (tab_pendingUrl t = None \<or> tab_pendingUrl t = Some []) \<longrightarrow> url_or_pending t = [])"
proof -
  let ?P1 = "\<lambda>t. tab_url t = Some u"
  let ?P2 = "\<lambda>t. tab_pendingUrl t = Some u"
  let ?P3 = "\<lambda>t. normalizeUrl parse (url_or_pending t) = normalizeUrl parse u"
  have unfold: "findTabByUrl parse tabs u =
     (case find ?P1 tabs of Some t \<Rightarrow> Some t
      | None \<Rightarrow> (case find ?P2 tabs of Some t \<Rightarrow> Some t | None \<Rightarrow> find ?P3 tabs))"
    by (simp add: findTabByUrl_def)
  have 1: "\<exists>t\<in>set tabs. findTabByUrl parse tabs u = Some t \<and> ?P1 t" if "\<exists>t\<in>set tabs. ?P1 t"
    using find_exists [of tabs ?P1, OF that] by (auto simp: unfold)
  have 2: "\<exists>t\<in>set tabs. findTabByUrl parse tabs u = Some t \<and> ?P2 t"
    if "\<not> (\<exists>t\<in>set tabs. ?P1 t)" "\<exists>t\<in>set tabs. ?P2 t"
  proof -
    have "find ?P1 tabs = None" using that(1) by (auto simp: find_None_iff)
    then show ?thesis using find_exists [of tabs ?P2, OF that(2)] by (auto simp: unfold)
  qed
  have 3: "\<exists>t\<in>set tabs. findTabByUrl parse tabs u = Some t \<and> ?P3 t"
    if "\<not> (\<exists>t\<in>set tabs. ?P1 t)" "\<not> (\<exists>t\<in>set tabs. ?P2 t)" "\<exists>t\<in>set tabs. ?P3 t"
  proof -
    have "find ?P1 tabs = None" "find ?P2 tabs = None" using that(1,2) by (auto simp: find_None_iff)
    then show ?thesis using find_exists [of tabs ?P3, OF that(3)] by (auto simp: unfold)
  qed
  have 4: "findTabByUrl parse tabs u = None"
    if "\<not> (\<exists>t\<in>set tabs. ?P1 t)" "\<not> (\<exists>t\<in>set tabs. ?P2 t)" "\<not> (\<exists>t\<in>set tabs. ?P3 t)"
  proof -
    have "find ?P1 tabs = None" "find ?P2 tabs = None" "find ?P3 tabs = None"
      using that by (auto simp: find_None_iff)
    then show ?thesis by (simp add: unfold)
  qed
  have 5: "\<forall>x p. parse x = Some p \<longrightarrow> normalizeUrl parse x = hostname p @ pathname p @ search p"
    by (simp add: normalizeUrl_def)
  have 6: "\<forall>x. parse x = None \<longrightarrow> normalizeUrl parse x = x"
    by (simp add: normalizeUrl_def)
  have 7: "\<forall>t s. tab_url t = Some s \<and> s \<noteq> [] \<longrightarrow> url_or_pending t = s"
    by (simp add: url_or_pending_def or_default_def)
  have 8: "\<forall>t s. (tab_url t = None \<or> tab_url t = Some []) \<and> tab_pendingUrl t = Some s \<and> s \<noteq> [] \<longrightarrow>
         url_or_pending t = s"
    by (auto simp: url_or_pending_def or_default_def)
  have 9: "\<forall>t. (tab_url t = None \<or> tab_url t = Some [])
           \<and> (tab_pendingUrl t = None \<or> tab_pendingUrl t = Some []) \<longrightarrow> url_or_pending t = []"
    by (auto simp: url_or_pending_def or_default_def)
  from 1 2 3 4 have chain: "((\<exists>t\<in>set tabs. ?P1 t) \<longrightarrow> (\<exists>t\<in>set tabs. findTabByUrl parse tabs u = Some t \<and> ?P1 t))
   \<and> (\<not> (\<exists>t\<in>set tabs. ?P1 t) \<and> (\<exists>t\<in>set tabs. ?P2 t) \<longrightarrow>
      (\<exists>t\<in>set tabs. findTabByUrl parse tabs u = Some t \<and> ?P2 t))
   \<and> (\<not> (\<exists>t\<in>set tabs. ?P1 t) \<and> \<not> (\<exists>t\<in>set tabs. ?P2 t) \<and> (\<exists>t\<in>set tabs. ?P3 t) \<longrightarrow>
      (\<exists>t\<in>set tabs. findTabByUrl parse tabs u = Some t \<and> ?P3 t))
   \<and> (\<not> (\<exists>t\<in>set tabs. ?P1 t) \<and> \<not> (\<exists>t\<in>set tabs. ?P2 t) \<and> \<not> (\<exists>t\<in>set tabs. ?P3 t) \<longrightarrow>
      findTabByUrl parse tabs u = None)" by blast
  from chain 5 6 7 8 9 show ?thesis by (intro conjI) (elim conjE, assumption)+
qed

theorem findTabByUrl_fallback_chain_witness:
  "findTabByUrl sim_URL [ex_loading_tab 7 ''https://example.com/a'', sim_tab 8 ''https://example.com/a'']
      ''https://example.com/a'' = Some (sim_tab 8 ''https://example.com/a'')
   \<and> findTabByUrl sim_URL [sim_tab 6 ''https://example.com/b'', ex_loading_tab 7 ''https://example.com/a'']
      ''https://example.com/a'' = Some (ex_loading_tab 7 ''https://example.com/a'')
   \<and> findTabByUrl sim_URL [sim_tab 6 ''https://example.com/b'', sim_tab 9 ''http://example.com/a'']
      ''https://example.com/a'' = Some (sim_tab 9 ''http://example.com/a'')
   \<and> findTabByUrl sim_URL [sim_tab 6 ''https://example.com/b''] ''https://example.com/a'' = None
   \<and> findTabByUrl sim_URL [sim_tab 5 ''https://other.example/a'', sim_tab 4 ''https://example.com/a?x=1'']
      ''https://example.com/a'' = None
   \<and> sim_URL ''https://example.com/a?x=1''
       = Some \<lparr> hostname = ''example.com'', pathname = ''/a'', search = ''?x=1'' \<rparr>
   \<and> normalizeUrl sim_URL ''https://example.com/a?x=1'' = ''example.com/a?x=1''
   \<and> sim_URL ''about:blank'' = None
   \<and> normalizeUrl sim_URL ''about:blank'' = ''about:blank''
   \<and> url_or_pending (sim_tab 8 ''https://example.com/a'') = ''https://example.com/a''
   \<and> url_or_pending (ex_loading_tab 7 ''https://example.com/a'') = ''https://example.com/a''
   \<and> url_or_pending ((sim_tab 2 [])\<lparr>tab_pendingUrl := Some ''https://example.com/a''\<rparr>)
       = ''https://example.com/a''
   \<and> url_or_pending ((sim_tab 3 [])\<lparr>tab_url := None\<rparr>) = []"
proof -
  let ?u = "''https://example.com/a''"
  let ?T1 = "[ex_loading_tab 7 ?u, sim_tab 8 ?u]"
  let ?T2 = "[sim_tab 6 ''https://example.com/b'', ex_loading_tab 7 ?u]"
  let ?T3 = "[sim_tab 6 ''https://example.com/b'', sim_tab 9 ''http://example.com/a'']"
  let ?T4 = "[sim_tab 6 ''https://example.com/b'']"
  let ?T5 = "[sim_tab 5 ''https://other.example/a'', sim_tab 4 ''https://example.com/a?x=1'']"
  let ?p = "\<lparr> hostname = ''example.com'', pathname = ''/a'', search = ''?x=1'' \<rparr>"
  have a1: "\<exists>t\<in>set ?T1. tab_url t = Some ?u" by code_simp
  have a2: "\<not> (\<exists>t\<in>set ?T2. tab_url t = Some ?u)" "\<exists>t\<in>set ?T2. tab_pendingUrl t = Some ?u"
    by code_simp+
  have a3: "\<not> (\<exists>t\<in>set ?T3. tab_url t = Some ?u)" "\<not> (\<exists>t\<in>set ?T3. tab_pendingUrl t = Some ?u)"
     "\<exists>t\<in>set ?T3. normalizeUrl sim_URL (url_or_pending t) = normalizeUrl sim_URL ?u"
    by code_simp+
  have a4: "\<not> (\<exists>t\<in>set ?T4. tab_url t = Some ?u)" "\<not> (\<exists>t\<in>set ?T4. tab_pendingUrl t = Some ?u)"
     "\<not> (\<exists>t\<in>set ?T4. normalizeUrl sim_URL (url_or_pending t) = normalizeUrl sim_URL ?u)"
    by code_simp+
  have a5: "\<not> (\<exists>t\<in>set ?T5. tab_url t = Some ?u)" "\<not> (\<exists>t\<in>set ?T5. tab_pendingUrl t = Some ?u)"
     "\<not> (\<exists>t\<in>set ?T5. normalizeUrl sim_URL (url_or_pending t) = normalizeUrl sim_URL ?u)"
    by code_simp+
  have u1: "\<And>t. t \<in> set ?T1 \<Longrightarrow> tab_url t = Some ?u \<Longrightarrow> t = sim_tab 8 ?u"
    by (auto simp: ex_loading_tab_def)
  have u2: "\<And>t. t \<in> set ?T2 \<Longrightarrow> tab_pendingUrl t = Some ?u \<Longrightarrow> t = ex_loading_tab 7 ?u"
    by (auto simp: sim_tab_def)
  have n6: "normalizeUrl sim_URL (url_or_pending (sim_tab 6 ''https://example.com/b'')) \<noteq> normalizeUrl sim_URL ?u"
    by code_simp
  have u3: "\<And>t. t \<in> set ?T3 \<Longrightarrow> normalizeUrl sim_URL (url_or_pending t) = normalizeUrl sim_URL ?u
      \<Longrightarrow> t = sim_tab 9 ''http://example.com/a''"
    using n6 by auto
  have r1: "findTabByUrl sim_URL ?T1 ?u = Some (sim_tab 8 ?u)"
    using findTabByUrl_fallback_chain [of ?T1 ?u sim_URL] a1 u1 by blast
  have r2: "findTabByUrl sim_URL ?T2 ?u = Some (ex_loading_tab 7 ?u)"
    using findTabByUrl_fallback_chain [of ?T2 ?u sim_URL] a2 u2 by blast
  have r3: "findTabByUrl sim_URL ?T3 ?u = Some (sim_tab 9 ''http://example.com/a'')"
    using findTabByUrl_fallback_chain [of ?T3 ?u sim_URL] a3 u3 by blast
  have r4: "findTabByUrl sim_URL ?T4 ?u = None"
    using findTabByUrl_fallback_chain [of ?T4 ?u sim_URL] a4 by blast
  have r5: "findTabByUrl sim_URL ?T5 ?u = None"
    using findTabByUrl_fallback_chain [of ?T5 ?u sim_URL] a5 by blast
  have p1: "sim_URL ''https://example.com/a?x=1'' = Some ?p" by code_simp
  have n1: "normalizeUrl sim_URL ''https://example.com/a?x=1'' = ''example.com/a?x=1''"
    using findTabByUrl_fallback_chain [of "[]" "[]" sim_URL] p1 by fastforce
  have p2: "sim_URL ''about:blank'' = None" by code_simp
  have n2: "normalizeUrl sim_URL ''about:blank'' = ''about:blank''"
    using findTabByUrl_fallback_chain [of "[]" "[]" sim_URL] p2 by blast
  have t8: "tab_url (sim_tab 8 ?u) = Some ?u \<and> ?u \<noteq> []" by code_simp
  have v1: "url_or_pending (sim_tab 8 ?u) = ?u"
    using findTabByUrl_fallback_chain [of "[]" "[]" sim_URL] t8 by blast
  have t7: "tab_url (ex_loading_tab 7 ?u) = None \<and> tab_pendingUrl (ex_loading_tab 7 ?u) = Some ?u \<and> ?u \<noteq> []"
    by code_simp
  have v2: "url_or_pending (ex_loading_tab 7 ?u) = ?u"
    using findTabByUrl_fallback_chain [of "[]" "[]" sim_URL] t7 by blast
  have t3: "tab_url ((sim_tab 3 [])\<lparr>tab_url := None\<rparr>) = None
     \<and> tab_pendingUrl ((sim_tab 3 [])\<lparr>tab_url := None\<rparr>) = None" by code_simp
  have v3: "url_or_pending ((sim_tab 3 [])\<lparr>tab_url := None\<rparr>) = []"
    using findTabByUrl_fallback_chain [of "[]" "[]" sim_URL] t3 by blast
  have t2: "tab_url ((sim_tab 2 [])\<lparr>tab_pendingUrl := Some ?u\<rparr>) = Some []
     \<and> tab_pendingUrl ((sim_tab 2 [])\<lparr>tab_pendingUrl := Some ?u\<rparr>) = Some ?u \<and> ?u \<noteq> []" by code_simp
  have v4: "url_or_pending ((sim_tab 2 [])\<lparr>tab_pendingUrl := Some ?u\<rparr>) = ?u"
    using findTabByUrl_fallback_chain [of "[]" "[]" sim_URL] t2 by blast
  from r1 r2 r3 r4 r5 p1 n1 p2 n2 v1 v2 v4 v3 show ?thesis by (intro conjI)
qed

subsection \<open>Capture: what is recorded\<close>

lemma expected_tabs_Nil [simp]: "expected_tabs [] = []"
  by (simp add: expected_tabs_def)

lemma expected_tabs_append [simp]: "expected_tabs (xs @ ys) = expected_tabs xs @ expected_tabs ys"
  by (simp add: expected_tabs_def)

lemma expected_tabs_Cons: "expected_tabs (t # ts) = expected_tabs [t] @ expected_tabs ts"
  by (simp add: expected_tabs_def)

lemma expected_tabs_urls: "td \<in> set (expected_tabs ts) \<Longrightarrow> \<not> skipped_url (Some (td_url td))"
  by (auto simp: expected_tabs_def mk_tabData_def split: option.splits if_splits)

lemma expected_tabs_all_skipped:
  "(\<forall>t\<in>set ts. skipped_url (tab_url t)) \<Longrightarrow> expected_tabs ts = []"
  by (induction ts) (auto simp: expected_tabs_def split: option.splits)

lemma expected_windows_Nil [simp]: "expected_windows [] = []"
  by (simp add: expected_windows_def)

lemma expected_windows_Cons: "expected_windows (x # xs) = expected_windows [x] @ expected_windows xs"
  by (simp add: expected_windows_def)

lemma expected_windows_all_skipped:
  "(\<forall>win\<in>set wins. \<forall>t\<in>set (or_empty (win_tabs win)). skipped_url (tab_url t)) \<Longrightarrow> expected_windows wins = []"
  by (induction wins) (auto simp: expected_windows_def expected_tabs_all_skipped)

lemma expected_windows_origin:
  "wd \<in> set (expected_windows wins) \<Longrightarrow>
     \<exists>win\<in>set wins. wd_id wd = win_id win \<and> wd_tabs wd = expected_tabs (or_empty (win_tabs win)) \<and> wd_tabs wd \<noteq> []"
  by (auto simp: expected_windows_def split: if_splits)

lemma urls_ok_Nil [simp]: "urls_ok []"
  by (simp add: urls_ok_def)

lemma set_update_subset: "set (AList.update k v al) \<subseteq> insert (k, v) (set al)"
  by (induction al) auto

lemma urls_ok_update:
  "urls_ok gm \<Longrightarrow> \<forall>u\<in>set (gi_tabUrls v). \<not> skipped_url (Some u) \<Longrightarrow> urls_ok (AList.update k v gm)"
  using set_update_subset [of k v gm] by (fastforce simp: urls_ok_def)

lemma urls_ok_lookup:
  "urls_ok gm \<Longrightarrow> map_of gm k = Some gi \<Longrightarrow> u \<in> set (gi_tabUrls gi) \<Longrightarrow> \<not> skipped_url (Some u)"
  by (auto simp: urls_ok_def dest!: map_of_SomeD)

lemma collect_group_urls_ok:
  assumes "urls_ok gm" "\<not> skipped_url (Some u)"
  shows "urls_ok (fst (collect_group ad gid u (gm, w)))"
proof -
  obtain gm1 w1 where f: "(if map_of gm gid = None then
                 (case invoke (TabGroupsGet gid) (tabGroups_get ad gid) w of
                    (Inr g, w1) \<Rightarrow> (AList.update gid (mk_groupInfo g) gm, w1)
                  | (Inl err, w1) \<Rightarrow> (gm, w1))
               else (gm, w)) = (gm1, w1)" by fastforce
  have ok1: "urls_ok gm1"
    using f assms(1) by (auto simp: urls_ok_update mk_groupInfo_def split: if_splits prod.splits sum.splits)
  show ?thesis
  proof (cases "map_of gm1 gid")
    case None
    then show ?thesis using ok1 f by (simp add: collect_group_def)
  next
    case (Some gi)
    have "urls_ok (AList.update gid (gi\<lparr>gi_tabUrls := gi_tabUrls gi @ [u]\<rparr>) gm1)"
      using ok1 assms(2) urls_ok_lookup [OF ok1 Some] by (intro urls_ok_update) auto
    then show ?thesis using f Some by (simp add: collect_group_def)
  qed
qed

lemma capture_tab_result:
  "fst (fst (capture_tab ad t ((tabs, gm), w))) = tabs @ expected_tabs [t]"
  by (auto simp: capture_tab_def expected_tabs_def Let_def split: option.splits prod.splits)

lemma capture_tab_urls_ok:
  "urls_ok gm \<Longrightarrow> urls_ok (snd (fst (capture_tab ad t ((tabs, gm), w))))"
proof -
  assume ok: "urls_ok gm"
  have "urls_ok gm'" if "collect_group ad (tab_groupId t) u (gm, w) = (gm', w')" "\<not> skipped_url (Some u)"
    for u gm' w'
    using collect_group_urls_ok [OF ok that(2), of ad "tab_groupId t" w] that(1) by simp
  then show ?thesis
    using ok by (auto simp: capture_tab_def Let_def split: option.splits prod.splits)
qed

lemma fold_capture_tab:
  "urls_ok gm \<Longrightarrow>
   fst (fst (fold (capture_tab ad) ts ((tabs, gm), w))) = tabs @ expected_tabs ts
   \<and> urls_ok (snd (fst (fold (capture_tab ad) ts ((tabs, gm), w))))"
proof (induction ts arbitrary: tabs gm w)
  case Nil
  then show ?case by simp
next
  case (Cons t ts)
  obtain tabs' gm' w' where st: "capture_tab ad t ((tabs, gm), w) = ((tabs', gm'), w')"
    by (metis prod.collapse)
  have "tabs' = tabs @ expected_tabs [t]" "urls_ok gm'"
    using capture_tab_result [of ad t tabs gm w] capture_tab_urls_ok [OF Cons.prems, of ad t tabs w] st
    by simp_all
  then show ?case
    using Cons.IH [of gm' tabs' w'] st by (simp add: expected_tabs_Cons [of t ts])
qed

lemma capture_window_result:
  assumes "urls_ok gm"
  shows "fst (fst (capture_window ad win ((wins, gm), w))) = wins @ expected_windows [win]
       \<and> urls_ok (snd (fst (capture_window ad win ((wins, gm), w))))"
proof -
  obtain tabs gm' w' where f: "fold (capture_tab ad) (or_empty (win_tabs win)) (([], gm), w) = ((tabs, gm'), w')"
    by (metis prod.collapse)
  have "tabs = expected_tabs (or_empty (win_tabs win))" "urls_ok gm'"
    using fold_capture_tab [OF assms, of ad "or_empty (win_tabs win)" "[]" w] f by simp_all
  then show ?thesis
    using f by (simp add: capture_window_def expected_windows_def)
qed

lemma fold_capture_window:
  "urls_ok gm \<Longrightarrow>
   fst (fst (fold (capture_window ad) windows ((wins, gm), w))) = wins @ expected_windows windows
   \<and> urls_ok (snd (fst (fold (capture_window ad) windows ((wins, gm), w))))"
proof (induction windows arbitrary: wins gm w)
  case Nil
  then show ?case by simp
next
  case (Cons win windows)
  obtain wins' gm' w' where st: "capture_window ad win ((wins, gm), w) = ((wins', gm'), w')"
    by (metis prod.collapse)
  have "wins' = wins @ expected_windows [win]" "urls_ok gm'"
    using capture_window_result [OF Cons.prems, of ad win wins w] st by simp_all
  then show ?case
    using Cons.IH [of gm' wins' w'] st by (simp add: expected_windows_Cons [of win windows])
qed

lemma capture_session_result:
  assumes "capture_session ad name w = (Inr sd, w')"
  shows "\<exists>windows gm. fst (windows_getAll ad (live w)) = Inr windows
           \<and> s_windows sd = expected_windows windows \<and> s_groups sd = map snd gm \<and> urls_ok gm
           \<and> s_name sd = name"
proof -
  obtain r w1 where g: "invoke WindowsGetAll (windows_getAll ad) w = (r, w1)" by (metis prod.collapse)
  from assms g obtain windows where r: "r = Inr windows"
    by (cases r) (auto simp: capture_session_def)
  have ga: "fst (windows_getAll ad (live w)) = Inr windows"
    using g r invoke_fst [of WindowsGetAll "windows_getAll ad" w] by simp
  obtain now1 w2 where d1: "invoke DateNow (Date_now ad) w1 = (now1, w2)" by (metis prod.collapse)
  obtain now2 w3 where d2: "invoke DateNow (Date_now ad) w2 = (now2, w3)" by (metis prod.collapse)
  obtain wins gm w4 where f: "fold (capture_window ad) windows (([], []), w3) = ((wins, gm), w4)"
    by (metis prod.collapse)
  have "wins = expected_windows windows" "urls_ok gm"
    using fold_capture_window [of "[]" ad windows "[]" w3] f by simp_all
  moreover have "sd = \<lparr> s_id = Number_toString now1, s_name = name, s_timestamp = now2,
                        s_windows = wins, s_groups = map snd gm \<rparr>"
    using assms g r d1 d2 f by (simp add: capture_session_def)
  ultimately show ?thesis using ga by auto
qed

text \<open>
  The popup's capture, \<open>saveCurrentSession\<close>, skips the tabs that cannot be restored. In
  the snapshot that it builds, every window record has at least one
  tab, every tab record and every URL of a group record has a URL that is present and not
  of an internal scheme, and the window records are exactly those of the enumerated
  windows that have such a tab, with the records of exactly those tabs: a tab that is
  skipped appears nowhere, and a window all of whose tabs are skipped has no record.
\<close>

theorem capture_skips_internal_tabs:
  assumes "capture_session ad name w = (Inr sd, w')"
  shows "(\<forall>wd\<in>set (s_windows sd). wd_tabs wd \<noteq> [] \<and>
            (\<forall>td\<in>set (wd_tabs wd). \<not> skipped_url (Some (td_url td))))
       \<and> (\<forall>g\<in>set (s_groups sd). \<forall>u\<in>set (gi_tabUrls g). \<not> skipped_url (Some u))
       \<and> (\<exists>windows. fst (windows_getAll ad (live w)) = Inr windows
            \<and> s_windows sd = expected_windows windows
            \<and> ((\<forall>win\<in>set windows. \<forall>t\<in>set (or_empty (win_tabs win)). skipped_url (tab_url t))
                \<longrightarrow> s_windows sd = []))"
proof -
  from capture_session_result [OF assms] obtain windows gm where
    r: "fst (windows_getAll ad (live w)) = Inr windows" "s_windows sd = expected_windows windows"
       "s_groups sd = map snd gm" "urls_ok gm" by blast
  have 1: "wd_tabs wd \<noteq> [] \<and> (\<forall>td\<in>set (wd_tabs wd). \<not> skipped_url (Some (td_url td)))"
    if "wd \<in> set (s_windows sd)" for wd
    using expected_windows_origin [of wd windows] that r(2) expected_tabs_urls by fastforce
  have 2: "\<not> skipped_url (Some u)" if "g \<in> set (s_groups sd)" "u \<in> set (gi_tabUrls g)" for g u
    using that r(3,4) by (fastforce simp: urls_ok_def)
  have 3: "s_windows sd = []"
    if "\<forall>win\<in>set windows. \<forall>t\<in>set (or_empty (win_tabs win)). skipped_url (tab_url t)"
    using expected_windows_all_skipped [OF that] r(2) by simp
  have "\<exists>windows. fst (windows_getAll ad (live w)) = Inr windows
            \<and> s_windows sd = expected_windows windows
            \<and> ((\<forall>win\<in>set windows. \<forall>t\<in>set (or_empty (win_tabs win)). skipped_url (tab_url t))
                \<longrightarrow> s_windows sd = [])"
    using r(1,2) 3 by (intro exI [of _ windows]) blast
  with 1 2 show ?thesis by blast
qed

subsection \<open>Capture: fetching group metadata\<close>


lemma member_urls_Nil [simp]: "member_urls g [] = []"
  by (simp add: member_urls_def)


lemma member_urls_windows_Nil [simp]: "member_urls_windows g [] = []"
  by (simp add: member_urls_windows_def)




















subsection \<open>Capture: the store and the quota\<close>

lemma collect_group_store [simp]: "store (snd (collect_group ad gid u (gm, w))) = store w"
proof -
  obtain r w1 where i: "invoke (TabGroupsGet gid) (tabGroups_get ad gid) w = (r, w1)"
    by (metis prod.collapse)
  have "store w1 = store w" using invoke_store [of "TabGroupsGet gid" "tabGroups_get ad gid" w] i by simp
  then show ?thesis
    using i by (auto simp: collect_group_def split: option.splits sum.splits prod.splits)
qed

lemma capture_tab_store [simp]: "store (snd (capture_tab ad t st)) = store (snd st)"
proof -
  obtain tabs gm w where st: "st = ((tabs, gm), w)" by (metis prod.collapse)
  have "store w' = store w" if "collect_group ad (tab_groupId t) u (gm, w) = (gm', w')" for u gm' w'
    using collect_group_store [of ad "tab_groupId t" u gm w] that by simp
  then show ?thesis
    by (auto simp: capture_tab_def st Let_def split: option.splits prod.splits)
qed

lemma fold_capture_tab_store [simp]: "store (snd (fold (capture_tab ad) ts st)) = store (snd st)"
  by (induction ts arbitrary: st) simp_all

lemma capture_window_store [simp]: "store (snd (capture_window ad win st)) = store (snd st)"
proof -
  obtain wins gm w where st: "st = ((wins, gm), w)" by (metis prod.collapse)
  obtain tabs gm' w' where f: "fold (capture_tab ad) (or_empty (win_tabs win)) (([], gm), w) = ((tabs, gm'), w')"
    by (metis prod.collapse)
  have "store w' = store w"
    using fold_capture_tab_store [of ad "or_empty (win_tabs win)" "(([], gm), w)"] f by simp
  then show ?thesis using f by (simp add: capture_window_def st)
qed

lemma fold_capture_window_store [simp]: "store (snd (fold (capture_window ad) windows st)) = store (snd st)"
  by (induction windows arbitrary: st) simp_all

lemma capture_session_store [simp]: "store (snd (capture_session ad name w)) = store w"
proof -
  obtain r w1 where g: "invoke WindowsGetAll (windows_getAll ad) w = (r, w1)" by (metis prod.collapse)
  have s1: "store w1 = store w" using invoke_store [of WindowsGetAll "windows_getAll ad" w] g by simp
  show ?thesis
  proof (cases r)
    case (Inl m)
    then show ?thesis using g s1 by (simp add: capture_session_def)
  next
    case (Inr windows)
    obtain now1 w2 where d1: "invoke DateNow (Date_now ad) w1 = (now1, w2)" by (metis prod.collapse)
    obtain now2 w3 where d2: "invoke DateNow (Date_now ad) w2 = (now2, w3)" by (metis prod.collapse)
    obtain wins gm w4 where f: "fold (capture_window ad) windows (([], []), w3) = ((wins, gm), w4)"
      by (metis prod.collapse)
    have "store w3 = store w"
      using s1 d1 d2 invoke_store [of DateNow "Date_now ad" w1] invoke_store [of DateNow "Date_now ad" w2]
      by simp
    moreover have "store w4 = store w3"
      using fold_capture_window_store [of ad windows "(([], []), w3)"] f by simp
    ultimately show ?thesis using g Inr d1 d2 f by (simp add: capture_session_def)
  qed
qed

text \<open>The storage test touches the test key only.\<close>

lemma test_storage_access_frame:
  "sessions (store (snd (test_storage_access ad w))) = sessions (store w)"
  "undoHistory (store (snd (test_storage_access ad w))) = undoHistory (store w)"
  by (auto simp: test_storage_access_def storage_set_test_def storage_remove_test_def invoke_def
      split: prod.splits option.splits sum.splits)

lemma test_storage_access_reliable:
  assumes "storage_reliable ad"
  shows "fst (test_storage_access ad w) = Inr ()"
  using storage_reliableD [OF assms, of "StorageSet K_test" "live w"]
        storage_reliableD [OF assms, of "StorageRemove K_test" "snd (storage_fault ad (StorageSet K_test) (live w))"]
  by (auto simp: test_storage_access_def storage_set_test_def storage_remove_test_def invoke_def
      split: prod.splits option.splits sum.splits)

lemma MSG_quota_rethrown:
  "str_includes MSG_quota ''Could not'' \<or> str_includes MSG_quota ''Storage'' \<or> str_includes MSG_quota ''quota''"
  by code_simp

text \<open>\<open>put\<close> when the estimate exceeds what is available: the quota error and no write.\<close>

lemma put_session_quota:
  assumes "fst (getBytesInUse ad (live w)) = Inr bytesInUse"
      and "estimateSessionSize sd > STORAGE_QUOTA - bytesInUse"
  shows "fst (put_session ad sd w) = Inl MSG_quota"
    and "store (snd (put_session ad sd w)) = store w"
    and "calls (snd (put_session ad sd w)) = calls w @ [StorageGetBytesInUse]"
proof -
  obtain r w1 where i: "invoke StorageGetBytesInUse (getBytesInUse ad) w = (r, w1)" by (metis prod.collapse)
  have r: "r = Inr bytesInUse"
    using assms(1) i invoke_fst [of StorageGetBytesInUse "getBytesInUse ad" w] by simp
  have w1: "store w1 = store w" "calls w1 = calls w @ [StorageGetBytesInUse]"
    using i invoke_store [of StorageGetBytesInUse "getBytesInUse ad" w]
          invoke_calls [of StorageGetBytesInUse "getBytesInUse ad" w] by simp_all
  have "put_session ad sd w = (Inl MSG_quota, w1)"
    using i r assms(2) by (simp add: put_session_def checkStorageQuota_def)
  then show "fst (put_session ad sd w) = Inl MSG_quota"
    and "store (snd (put_session ad sd w)) = store w"
    and "calls (snd (put_session ad sd w)) = calls w @ [StorageGetBytesInUse]"
    using w1 by simp_all
qed

text \<open>
  Claim C1. The estimate is twice the length of the JSON text. When the storage test and
  the capture have succeeded and the estimate of the captured snapshot exceeds the quota
  minus the bytes in use, \<open>saveCurrentSession\<close> fails with the quota error, the only call
  after the capture is the reading of the bytes in use, and the stored snapshot list (and
  the undo history) are what they were.
\<close>

theorem quota_exceeded_no_write:
  assumes t: "test_storage_access ad w0 = (Inr (), w1)"
      and c: "capture_session ad name w1 = (Inr sd, w2)"
      and b: "fst (getBytesInUse ad (live w2)) = Inr bytesInUse"
      and q: "estimateSessionSize sd > STORAGE_QUOTA - bytesInUse"
  shows "estimateSessionSize sd = 2 * int (length (JSON_stringify sd))
       \<and> fst (saveCurrentSession ad name w0) = Inl MSG_quota
       \<and> sessions (store (snd (saveCurrentSession ad name w0))) = sessions (store w0)
       \<and> undoHistory (store (snd (saveCurrentSession ad name w0))) = undoHistory (store w0)
       \<and> calls (snd (saveCurrentSession ad name w0)) = calls w2 @ [StorageGetBytesInUse]"
proof -
  note p = put_session_quota [OF b q]
  have body: "saveCurrentSession_body ad name w0 = put_session ad sd w2"
    using t c by (simp add: saveCurrentSession_body_def)
  obtain w3 where p3: "put_session ad sd w2 = (Inl MSG_quota, w3)"
    using p(1) by (metis prod.collapse)
  have s: "saveCurrentSession ad name w0 = (Inl MSG_quota, w3)"
    using body p3 MSG_quota_rethrown by (simp add: saveCurrentSession_def)
  have "store w3 = store w2" "calls w3 = calls w2 @ [StorageGetBytesInUse]"
    using p(2,3) p3 by simp_all
  moreover have "store w2 = store w1" using capture_session_store [of ad name w1] c by simp
  moreover have "sessions (store w1) = sessions (store w0)" "undoHistory (store w1) = undoHistory (store w0)"
    using test_storage_access_frame [of ad w0] t by simp_all
  ultimately show ?thesis using s by (simp add: estimateSessionSize_def)
qed

subsection \<open>Capture: empty snapshots\<close>

lemma capture_tab_skipped: "skipped_url (tab_url t) \<Longrightarrow> capture_tab ad t st = st"
  by (auto simp: capture_tab_def split: prod.splits option.splits)

lemma fold_capture_tab_skipped:
  "\<forall>t\<in>set ts. skipped_url (tab_url t) \<Longrightarrow> fold (capture_tab ad) ts st = st"
  by (induction ts arbitrary: st) (simp_all add: capture_tab_skipped)

lemma capture_window_skipped:
  "\<forall>t\<in>set (or_empty (win_tabs win)). skipped_url (tab_url t) \<Longrightarrow> capture_window ad win st = st"
  by (auto simp: capture_window_def fold_capture_tab_skipped split: prod.splits)

lemma fold_capture_window_skipped:
  "all_skipped windows \<Longrightarrow> fold (capture_window ad) windows st = st"
  by (induction windows arbitrary: st) (simp_all add: all_skipped_def capture_window_skipped)

lemma capture_session_all_skipped:
  assumes "fst (windows_getAll ad (live w)) = Inr windows" "all_skipped windows"
  shows "\<exists>sd. fst (capture_session ad name w) = Inr sd \<and> s_name sd = name
           \<and> s_windows sd = [] \<and> s_groups sd = []"
proof -
  obtain r w1 where g: "invoke WindowsGetAll (windows_getAll ad) w = (r, w1)" by (metis prod.collapse)
  have r: "r = Inr windows"
    using g assms(1) invoke_fst [of WindowsGetAll "windows_getAll ad" w] by simp
  show ?thesis
    using g r fold_capture_window_skipped [OF assms(2), of ad]
    by (simp add: capture_session_def split: prod.splits)
qed

lemma validateSession_empty: "s_windows sd = [] \<Longrightarrow> s_groups sd = [] \<Longrightarrow> \<not> validateSession sd"
  by (simp add: validateSession_def)

lemma storage_get_sessions_ok:
  assumes "storage_reliable ad"
  shows "fst (storage_get_sessions ad w) = Inr (sessions (store w))"
    and "store (snd (storage_get_sessions ad w)) = store w"
  using storage_reliableD [OF assms, of "StorageGet K_sessions" "live w"]
  by (auto simp: storage_get_sessions_def invoke_def split: prod.splits option.splits)

lemma storage_set_sessions_ok:
  assumes "storage_reliable ad"
  shows "fst (storage_set_sessions ad v w) = Inr ()"
    and "stored (snd (storage_set_sessions ad v w)) = v"
  using storage_reliableD [OF assms, of "StorageSet K_sessions" "live w"]
  by (auto simp: storage_set_sessions_def invoke_def stored_def or_empty_def split: prod.splits option.splits)

lemma checkStorageQuota_store [simp]: "store (snd (checkStorageQuota ad w)) = store w"
proof -
  obtain r w1 where i: "invoke StorageGetBytesInUse (getBytesInUse ad) w = (r, w1)" by (metis prod.collapse)
  have "store w1 = store w" using invoke_store [of StorageGetBytesInUse "getBytesInUse ad" w] i by simp
  then show ?thesis using i by (cases r) (simp_all add: checkStorageQuota_def)
qed

text \<open>\<open>put\<close> when the estimate fits and storage works: the snapshot is appended.\<close>

lemma put_session_ok:
  assumes ok: "storage_reliable ad"
      and fits: "estimateSessionSize sd \<le> snd (fst (checkStorageQuota ad w))"
  shows "fst (put_session ad sd w) = Inr (s_id sd)"
    and "stored (snd (put_session ad sd w)) = stored w @ [sd]"
proof -
  obtain b a w1 where q: "checkStorageQuota ad w = ((b, a), w1)" by (metis prod.collapse)
  have s1: "store w1 = store w" using checkStorageQuota_store [of ad w] q by simp
  obtain r2 w2 where g: "storage_get_sessions ad w1 = (r2, w2)" by (metis prod.collapse)
  have r2: "r2 = Inr (sessions (store w))" and s2: "store w2 = store w"
    using storage_get_sessions_ok [OF ok, of w1] g s1 by simp_all
  let ?v = "or_empty (sessions (store w)) @ [sd]"
  obtain r3 w3 where s: "storage_set_sessions ad ?v w2 = (r3, w3)" by (metis prod.collapse)
  have r3: "r3 = Inr ()" and s3: "stored w3 = ?v"
    using storage_set_sessions_ok [OF ok, of ?v w2] s by simp_all
  have "put_session ad sd w = (Inr (s_id sd), w3)"
    using q fits g r2 s r3 by (simp add: put_session_def)
  then show "fst (put_session ad sd w) = Inr (s_id sd)"
    and "stored (snd (put_session ad sd w)) = stored w @ [sd]"
    using s3 by (simp_all add: stored_def)
qed

text \<open>
  Restore of an id that does not resolve, or of a session that fails validation: the
  error, after one read of the stored list and nothing else.
\<close>

lemma restoreSession_not_found:
  assumes "find (\<lambda>s. s_id s = sid) (fst (getAllSessions ad w)) = None"
  shows "restoreSession ad sid w = Some (Inl MSG_not_found, snd (getAllSessions ad w))"
proof -
  obtain ss w1 where g: "getAllSessions ad w = (ss, w1)" by (metis prod.collapse)
  have "str_includes MSG_not_found ''Session not found''" by code_simp
  then show ?thesis
    using assms g by (simp add: restoreSession_def restoreSession_body_def)
qed

lemma restoreSession_invalid:
  assumes "find (\<lambda>s. s_id s = sid) (fst (getAllSessions ad w)) = Some session"
      and "\<not> validateSession session"
  shows "restoreSession ad sid w = Some (Inl MSG_invalid, snd (getAllSessions ad w))"
proof -
  obtain ss w1 where g: "getAllSessions ad w = (ss, w1)" by (metis prod.collapse)
  have "str_includes MSG_invalid ''Invalid''" by code_simp
  then show ?thesis
    using assms g by (simp add: restoreSession_def restoreSession_body_def)
qed

text \<open>
  Claim C9. When every enumerated tab is skipped, the captured snapshot has no window and
  no group and fails \<open>validateSession\<close>; all the same, with working storage and an estimate
  within the available bytes, \<open>saveCurrentSession\<close> succeeds and appends that snapshot to
  the stored list. The validity check is met only on restore, which rejects the snapshot.
\<close>

theorem save_appends_empty_snapshot:
  assumes ok: "storage_reliable ad"
      and en: "fst (windows_getAll ad (live (snd (test_storage_access ad w)))) = Inr windows"
      and sk: "all_skipped windows"
      and fits: "\<forall>sd. fst (capture_session ad name (snd (test_storage_access ad w))) = Inr sd \<longrightarrow>
                  estimateSessionSize sd
                    \<le> snd (fst (checkStorageQuota ad (snd (capture_session ad name (snd (test_storage_access ad w))))))"
  shows "\<exists>sd. fst (capture_session ad name (snd (test_storage_access ad w))) = Inr sd
           \<and> s_windows sd = [] \<and> s_groups sd = [] \<and> \<not> validateSession sd
           \<and> fst (saveCurrentSession ad name w) = Inr (s_id sd)
           \<and> stored (snd (saveCurrentSession ad name w)) = stored w @ [sd]
           \<and> (\<forall>ad' w'. find (\<lambda>s. s_id s = s_id sd) (fst (getAllSessions ad' w')) = Some sd \<longrightarrow>
                 restoreSession ad' (s_id sd) w' = Some (Inl MSG_invalid, snd (getAllSessions ad' w')))"
proof -
  obtain w1 where t: "test_storage_access ad w = (Inr (), w1)"
    using test_storage_access_reliable [OF ok, of w] by (metis prod.collapse)
  then have w1: "snd (test_storage_access ad w) = w1" by simp
  from capture_session_all_skipped [OF en sk, of name] obtain sd where
    sd: "fst (capture_session ad name w1) = Inr sd" "s_windows sd = []" "s_groups sd = []"
    unfolding w1 by blast
  have inv: "\<not> validateSession sd" using sd(2,3) by (rule validateSession_empty)
  obtain w2 where c: "capture_session ad name w1 = (Inr sd, w2)"
    using sd(1) by (metis prod.collapse)
  then have w2: "snd (capture_session ad name w1) = w2" by simp
  have body: "saveCurrentSession_body ad name w = put_session ad sd w2"
    using t c by (simp add: saveCurrentSession_body_def)
  have f: "estimateSessionSize sd \<le> snd (fst (checkStorageQuota ad w2))"
    using fits sd(1) unfolding w1 w2 by blast
  note p = put_session_ok [OF ok f]
  obtain r w3 where pp: "put_session ad sd w2 = (r, w3)" by (metis prod.collapse)
  have r: "r = Inr (s_id sd)" and s3: "stored w3 = stored w2 @ [sd]" using p pp by simp_all
  have res: "saveCurrentSession ad name w = (Inr (s_id sd), w3)"
    using body pp r by (simp add: saveCurrentSession_def)
  have "sessions (store w1) = sessions (store w)"
    using test_storage_access_frame(1) [of ad w] w1 by simp
  moreover have "store w2 = store w1" using capture_session_store [of ad name w1] w2 by simp
  ultimately have "stored w2 = stored w" by (simp add: stored_def)
  then have st: "stored (snd (saveCurrentSession ad name w)) = stored w @ [sd]"
    using res s3 by simp
  have "restoreSession ad' (s_id sd) w' = Some (Inl MSG_invalid, snd (getAllSessions ad' w'))"
    if "find (\<lambda>s. s_id s = s_id sd) (fst (getAllSessions ad' w')) = Some sd" for ad' :: "'b chrome" and w'
    using restoreSession_invalid [OF that inv] .
  then show ?thesis using sd inv res st unfolding w1 by (intro exI [of _ sd]) simp
qed

subsection \<open>Capture: examples\<close>

theorem quota_exceeded_no_write_witness:
  "test_storage_access sim_chrome (with_sessions ex_stored (world_of ex_browser_full))
     = (Inr (), snd (test_storage_access sim_chrome (with_sessions ex_stored (world_of ex_browser_full))))
   \<and> fst (capture_session sim_chrome ''Work''
            (snd (test_storage_access sim_chrome (with_sessions ex_stored (world_of ex_browser_full)))))
     = Inr (ex_snapshot ''Work'')
   \<and> estimateSessionSize (ex_snapshot ''Work'') > STORAGE_QUOTA - (STORAGE_QUOTA - 10)
   \<and> estimateSessionSize (ex_snapshot ''Work'') = 2 * int (length (JSON_stringify (ex_snapshot ''Work'')))
   \<and> fst (saveCurrentSession sim_chrome ''Work'' (with_sessions ex_stored (world_of ex_browser_full)))
     = Inl MSG_quota
   \<and> sessions (store (snd (saveCurrentSession sim_chrome ''Work'' (with_sessions ex_stored (world_of ex_browser_full)))))
     = Some ex_stored"
proof -
  let ?W = "with_sessions ex_stored (world_of ex_browser_full)"
  let ?W1 = "snd (test_storage_access sim_chrome ?W)"
  let ?W2 = "snd (capture_session sim_chrome ''Work'' ?W1)"
  have "fst (test_storage_access sim_chrome ?W) = Inr ()" by code_simp
  then have t: "test_storage_access sim_chrome ?W = (Inr (), ?W1)" by (metis prod.collapse)
  have c0: "fst (capture_session sim_chrome ''Work'' ?W1) = Inr (ex_snapshot ''Work'')" by code_simp
  then have c: "capture_session sim_chrome ''Work'' ?W1 = (Inr (ex_snapshot ''Work''), ?W2)"
    by (metis prod.collapse)
  have b: "fst (getBytesInUse sim_chrome (live ?W2)) = Inr (STORAGE_QUOTA - 10)" by code_simp
  have q: "estimateSessionSize (ex_snapshot ''Work'') > STORAGE_QUOTA - (STORAGE_QUOTA - 10)" by code_simp
  have s: "sessions (store ?W) = Some ex_stored" by (simp add: with_sessions_def)
  from quota_exceeded_no_write [OF t c b q] t c0 q s show ?thesis by simp
qed

theorem capture_skips_internal_tabs_witness:
  "fst (capture_session sim_chrome ''Work'' (world_of ex_browser)) = Inr (ex_snapshot ''Work'')
   \<and> map win_id (sim_windows ex_browser) = [10, 20]
   \<and> map wd_id (s_windows (ex_snapshot ''Work'')) = [20]
   \<and> concat (map (\<lambda>wd. map td_url (wd_tabs wd)) (s_windows (ex_snapshot ''Work'')))
       = [''https://mail.x.com'', ''https://docs.x.com'']
   \<and> concat (map gi_tabUrls (s_groups (ex_snapshot ''Work'')))
       = [''https://mail.x.com'', ''https://docs.x.com'']
   \<and> \<not> skipped_url (Some ''https://mail.x.com'') \<and> \<not> skipped_url (Some ''https://docs.x.com'')
   \<and> s_windows (ex_snapshot ''Work'') = expected_windows (sim_windows ex_browser)
   \<and> fst (capture_session sim_chrome ''Work'' (world_of ex_browser_internal)) = Inr (ex_empty_snapshot ''Work'')"
proof -
  let ?W = "world_of ex_browser"
  have c0: "fst (capture_session sim_chrome ''Work'' ?W) = Inr (ex_snapshot ''Work'')" by code_simp
  then have c: "capture_session sim_chrome ''Work'' ?W
      = (Inr (ex_snapshot ''Work''), snd (capture_session sim_chrome ''Work'' ?W))"
    by (metis prod.collapse)
  have g: "fst (windows_getAll sim_chrome (live ?W)) = Inr (sim_windows ex_browser)"
    by (simp add: sim_chrome_def world_of_def)
  have i: "fst (capture_session sim_chrome ''Work'' (world_of ex_browser_internal)) = Inr (ex_empty_snapshot ''Work'')"
    by code_simp
  have ids: "map win_id (sim_windows ex_browser) = [10, 20]" "map wd_id (s_windows (ex_snapshot ''Work'')) = [20]"
    by code_simp+
  have u: "concat (map (\<lambda>wd. map td_url (wd_tabs wd)) (s_windows (ex_snapshot ''Work'')))
             = [''https://mail.x.com'', ''https://docs.x.com'']"
          "concat (map gi_tabUrls (s_groups (ex_snapshot ''Work'')))
             = [''https://mail.x.com'', ''https://docs.x.com'']"
    by code_simp+
  have m: "\<forall>u\<in>set (concat (map gi_tabUrls (s_groups (ex_snapshot ''Work'')))). \<not> skipped_url (Some u)"
    using capture_skips_internal_tabs [OF c] by auto
  have e: "s_windows (ex_snapshot ''Work'') = expected_windows (sim_windows ex_browser)"
    using capture_skips_internal_tabs [OF c] g by auto
  from m have "\<not> skipped_url (Some ''https://mail.x.com'') \<and> \<not> skipped_url (Some ''https://docs.x.com'')"
    unfolding u by simp
  with e c0 i ids u show ?thesis by simp
qed



theorem save_appends_empty_snapshot_witness:
  "storage_reliable sim_chrome
   \<and> fst (windows_getAll sim_chrome (live (snd (test_storage_access sim_chrome (world_of ex_browser_internal)))))
       = Inr [\<lparr> win_id = 10, win_tabs = Some [sim_tab 11 ''chrome://settings''] \<rparr>]
   \<and> skipped_url (tab_url (sim_tab 11 ''chrome://settings''))
   \<and> fst (saveCurrentSession sim_chrome ''Work'' (world_of ex_browser_internal)) = Inr ''1700000000000''
   \<and> stored (snd (saveCurrentSession sim_chrome ''Work'' (world_of ex_browser_internal)))
       = [ex_empty_snapshot ''Work'']
   \<and> \<not> validateSession (ex_empty_snapshot ''Work'')
   \<and> map_option fst (restoreSession sim_chrome ''1700000000000''
        (snd (saveCurrentSession sim_chrome ''Work'' (world_of ex_browser_internal))))
       = Some (Inl MSG_invalid)"
proof -
  let ?W = "world_of ex_browser_internal"
  let ?W1 = "snd (test_storage_access sim_chrome ?W)"
  let ?W' = "snd (saveCurrentSession sim_chrome ''Work'' ?W)"
  have en: "fst (windows_getAll sim_chrome (live ?W1)) = Inr (sim_windows ex_browser_internal)"
    by code_simp
  have sk: "all_skipped (sim_windows ex_browser_internal)"
    unfolding all_skipped_def by code_simp
  have c0: "fst (capture_session sim_chrome ''Work'' ?W1) = Inr (ex_empty_snapshot ''Work'')"
    by code_simp
  have f0: "estimateSessionSize (ex_empty_snapshot ''Work'')
      \<le> snd (fst (checkStorageQuota sim_chrome (snd (capture_session sim_chrome ''Work'' ?W1))))"
    by code_simp
  have fits: "\<forall>sd. fst (capture_session sim_chrome ''Work'' ?W1) = Inr sd \<longrightarrow>
      estimateSessionSize sd \<le> snd (fst (checkStorageQuota sim_chrome (snd (capture_session sim_chrome ''Work'' ?W1))))"
    using c0 f0 by simp
  have fnd: "find (\<lambda>s. s_id s = s_id (ex_empty_snapshot ''Work'')) (fst (getAllSessions sim_chrome ?W'))
      = Some (ex_empty_snapshot ''Work'')"
    by code_simp
  have sid: "s_id (ex_empty_snapshot ''Work'') = ''1700000000000''" by (simp add: ex_empty_snapshot_def)
  from save_appends_empty_snapshot [OF sim_reliable en sk fits]
  obtain sd where sd: "fst (capture_session sim_chrome ''Work'' ?W1) = Inr sd"
      "\<not> validateSession sd"
      "fst (saveCurrentSession sim_chrome ''Work'' ?W) = Inr (s_id sd)"
      "stored ?W' = stored ?W @ [sd]"
      "\<forall>ad' w'. find (\<lambda>s. s_id s = s_id sd) (fst (getAllSessions ad' w')) = Some sd \<longrightarrow>
         restoreSession ad' (s_id sd) w' = Some (Inl MSG_invalid, snd (getAllSessions ad' (w' :: sim world)))"
    by blast
  have e: "sd = ex_empty_snapshot ''Work''" using sd(1) c0 by simp
  have "stored ?W = []" by code_simp
  moreover have "restoreSession sim_chrome ''1700000000000'' ?W' = Some (Inl MSG_invalid, snd (getAllSessions sim_chrome ?W'))"
    using sd(5) fnd unfolding e sid by blast
  moreover have "fst (windows_getAll sim_chrome (live ?W1))
       = Inr [\<lparr> win_id = 10, win_tabs = Some [sim_tab 11 ''chrome://settings''] \<rparr>]"
    using en by (simp add: ex_browser_internal_def)
  moreover have "skipped_url (tab_url (sim_tab 11 ''chrome://settings''))" by code_simp
  ultimately show ?thesis
    using sd(2,3,4) sim_reliable unfolding e sid by simp
qed

subsection \<open>Capture in the background worker\<close>

lemma fold_capture_tab_inline_tabs:
  "fst (fst (fold (capture_tab_inline ad) ts ((tabs, gm), w))) = tabs @ map mk_inlineTabData ts"
proof (induction ts arbitrary: tabs gm w)
  case Nil
  then show ?case by simp
next
  case (Cons t ts)
  obtain tabs' gm' w' where st: "capture_tab_inline ad t ((tabs, gm), w) = ((tabs', gm'), w')"
    by (metis prod.collapse)
  have "tabs' = tabs @ [mk_inlineTabData t]"
    using st by (auto simp: capture_tab_inline_def Let_def split: if_splits prod.splits)
  then show ?case using Cons.IH [of tabs' gm' w'] st by simp
qed

lemma fold_capture_window_inline_windows:
  "fst (fst (fold (capture_window_inline ad) windows ((wins, gm), w))) = wins @ inline_windows windows"
proof (induction windows arbitrary: wins gm w)
  case Nil
  then show ?case by (simp add: inline_windows_def)
next
  case (Cons win windows)
  obtain wins' gm' w' where st: "capture_window_inline ad win ((wins, gm), w) = ((wins', gm'), w')"
    by (metis prod.collapse)
  obtain tabs gm1 w1 where f: "fold (capture_tab_inline ad) (or_empty (win_tabs win)) (([], gm), w) = ((tabs, gm1), w1)"
    by (metis prod.collapse)
  have "tabs = map mk_inlineTabData (or_empty (win_tabs win))"
    using fold_capture_tab_inline_tabs [of ad "or_empty (win_tabs win)" "[]" gm w] f by simp
  then have "wins' = wins @ [\<lparr> iwd_id = win_id win, iwd_tabs = map mk_inlineTabData (or_empty (win_tabs win)) \<rparr>]"
    using st f by (simp add: capture_window_inline_def)
  then show ?case using Cons.IH [of wins' gm' w'] st by (simp add: inline_windows_def)
qed

text \<open>
  The background capture records every tab of every enumerated window, whatever its URL,
  and every window, whatever its tabs.
\<close>

lemma saveCurrentSessionInline_records_every_tab:
  assumes "saveCurrentSessionInline_snapshot ad name w = (Some sd, w')"
    and "fst (windows_getAll ad (live w)) = Inr windows"
  shows "is_windows sd = inline_windows windows"
proof -
  obtain r w1 where g: "invoke WindowsGetAll (windows_getAll ad) w = (r, w1)" by (metis prod.collapse)
  have r: "r = Inr windows" using g assms(2) invoke_fst [of WindowsGetAll "windows_getAll ad" w] by simp
  obtain now1 w2 where d1: "invoke DateNow (Date_now ad) w1 = (now1, w2)" by (metis prod.collapse)
  obtain now2 w3 where d2: "invoke DateNow (Date_now ad) w2 = (now2, w3)" by (metis prod.collapse)
  obtain wins gm w4 where f: "fold (capture_window_inline ad) windows (([], []), w3) = ((wins, gm), w4)"
    by (metis prod.collapse)
  have "wins = inline_windows windows"
    using fold_capture_window_inline_windows [of ad windows "[]" "[]" w3] f by simp
  then show ?thesis
    using assms(1) g r d1 d2 f by (auto simp: saveCurrentSessionInline_snapshot_def)
qed

text \<open>
  Claim C4 holds of the popup's capture and fails on the background's. The browser has one
  window whose only tab is the internal page \<open>chrome://settings\<close>, a URL that the popup's
  loop skips. \<open>saveCurrentSession\<close> captures a snapshot with no window. The snapshot that
  \<open>saveCurrentSessionInline\<close> builds has a record of the window, holding a record of the
  internal tab. In the browser with group 5, whose window 20 holds two pages of the group,
  an internal page of the group and a tab without URL, the background snapshot records all
  four tabs and lists the internal tab 22 among the members of the group, where the popup's
  snapshot has the two pages only.
\<close>

theorem saveCurrentSessionInline_records_internal_tab:
  "skipped_url (Some ''chrome://settings'')
   \<and> fst (capture_session sim_chrome ''Recovery'' (world_of ex_browser_internal))
       = Inr (ex_empty_snapshot ''Recovery'')
   \<and> s_windows (ex_empty_snapshot ''Recovery'') = []
   \<and> fst (saveCurrentSessionInline_snapshot sim_chrome ''Recovery'' (world_of ex_browser_internal))
       = Some \<lparr> is_id = ''1700000000000'', is_name = ''Recovery'', is_timestamp = 1700000000001,
                is_windows =
                  [\<lparr> iwd_id = 10, iwd_tabs =
                      [\<lparr> itd_id = 11, itd_url = Some ''chrome://settings'', itd_title = None,
                          itd_pinned = False, itd_active = False, itd_groupId = None \<rparr>] \<rparr>],
                is_groups = [] \<rparr>
   \<and> skipped_url (Some ''chrome://extensions'') \<and> skipped_url None
   \<and> fst (capture_session sim_chrome ''Recovery'' (world_of ex_browser)) = Inr (ex_snapshot ''Recovery'')
   \<and> map (\<lambda>wd. (wd_id wd, map td_url (wd_tabs wd))) (s_windows (ex_snapshot ''Recovery''))
       = [(20, [''https://mail.x.com'', ''https://docs.x.com''])]
   \<and> map (\<lambda>wd. (iwd_id wd, map (\<lambda>td. (itd_id td, itd_url td)) (iwd_tabs wd)))
        (is_windows (the (fst (saveCurrentSessionInline_snapshot sim_chrome ''Recovery'' (world_of ex_browser)))))
       = [(10, [(11, Some ''chrome://settings'')]),
          (20, [(21, Some ''https://mail.x.com''), (22, Some ''chrome://extensions''), (23, None),
                (24, Some ''https://docs.x.com'')])]
   \<and> map (\<lambda>g. (igi_id g, igi_tabIds g))
        (is_groups (the (fst (saveCurrentSessionInline_snapshot sim_chrome ''Recovery'' (world_of ex_browser)))))
       = [(5, [21, 22, 24])]"
  by code_simp

subsection \<open>Restore: a failure after the environment was changed\<close>

text \<open>
  As stated the claim fails: a valid session is restored into a browser that lets only one
  window be created. The first window is created, the creation of the second is rejected,
  and the whole restore fails with the generic error, after the live environment was
  changed.
\<close>

theorem restore_fails_after_mutation_counterexample:
  "validateSession ex_two_windows
   \<and> restoreSession sim_chrome ''7'' ex_restore_world \<noteq> None
   \<and> fst (the (restoreSession sim_chrome ''7'' ex_restore_world)) = Inl MSG_restore_failed
   \<and> filter mutating (calls (snd (the (restoreSession sim_chrome ''7'' ex_restore_world))))
       = [WindowsCreate ''https://a.example/'', WindowsCreate ''https://b.example/'']
   \<and> map win_id (sim_windows (live ex_restore_world)) = []
   \<and> map win_id (sim_windows (live (snd (the (restoreSession sim_chrome ''7'' ex_restore_world))))) = [1]"
  by code_simp

subsection \<open>Undo: the entry is consumed before the replay\<close>

lemma extends_refl [simp]: "extends w w"
  by (simp add: extends_def)

lemma extends_trans: "extends w w1 \<Longrightarrow> extends w1 w2 \<Longrightarrow> extends w w2"
  by (auto simp: extends_def)

lemma extends_invoke: "\<not> storage_write c \<Longrightarrow> extends w (snd (invoke c f w))"
  by (simp add: extends_def)

lemma extends_fold:
  assumes "\<And>x w. extends w (f x w)"
  shows "extends w (fold f xs w)"
proof (induction xs arbitrary: w)
  case Nil
  show ?case by simp
next
  case (Cons x xs)
  show ?case using extends_trans [OF assms [of w x] Cons.IH [of "f x w"]] by simp
qed

lemma ungroup_tab_extends: "extends w (ungroup_tab ad t w)"
  by (simp add: ungroup_tab_def extends_invoke)

lemma recreate_group_extends: "extends w (snd (recreate_group ad wid ws g w))"
proof -
  obtain r w1 where q: "invoke (TabsQuery wid) (tabs_query ad wid) w = (r, w1)" by (metis prod.collapse)
  have e1: "extends w w1" using extends_invoke [of "TabsQuery wid" w "tabs_query ad wid"] q by simp
  show ?thesis
  proof (cases r)
    case (Inl err)
    then show ?thesis using q e1 by (simp add: recreate_group_def)
  next
    case (Inr existingTabs)
    let ?ids = "tabsToGroup existingTabs ws g"
    obtain r2 w2 where gr: "invoke (TabsGroup ?ids) (tabs_group ad ?ids) w1 = (r2, w2)" by (metis prod.collapse)
    have e2: "extends w w2"
      using extends_trans [OF e1 extends_invoke [of "TabsGroup ?ids" w1 "tabs_group ad ?ids"]] gr by simp
    show ?thesis
    proof (cases r2)
      case (Inl err)
      then show ?thesis using q Inr gr e1 e2 by (simp add: recreate_group_def Let_def)
    next
      case r2: (Inr newGroupId)
      have "extends w2 (snd (invoke (TabGroupsUpdate newGroupId)
              (tabGroups_update ad newGroupId (sg_title g) (sg_color g) (sg_collapsed g)) w2))"
        by (simp add: extends_invoke)
      then show ?thesis
        using q Inr gr r2 e1 extends_trans [OF e2] by (simp add: recreate_group_def Let_def)
    qed
  qed
qed

lemma recreate_groups_extends: "extends w (snd (recreate_groups ad wid ws gs w))"
proof (induction gs arbitrary: w)
  case Nil
  show ?case by simp
next
  case (Cons g gs)
  obtain r w1 where rg: "recreate_group ad wid ws g w = (r, w1)" by (metis prod.collapse)
  have e1: "extends w w1" using recreate_group_extends [of w ad wid ws g] rg by simp
  show ?case
    using rg e1 extends_trans [OF e1 Cons.IH [of w1]] by (cases r) simp_all
qed

lemma undo_window_extends: "extends w (snd (undo_window ad ws w))"
proof -
  obtain r w1 where g: "invoke (WindowsGet (ws_id ws)) (windows_get ad (ws_id ws)) w = (r, w1)"
    by (metis prod.collapse)
  have e1: "extends w w1"
    using extends_invoke [of "WindowsGet (ws_id ws)" w "windows_get ad (ws_id ws)"] g by simp
  show ?thesis
  proof (cases r)
    case (Inl err)
    then show ?thesis using g e1 by (simp add: undo_window_def)
  next
    case (Inr win)
    obtain r2 w2 where q: "invoke (TabsQuery (win_id win)) (tabs_query ad (win_id win)) w1 = (r2, w2)"
      by (metis prod.collapse)
    have e2: "extends w w2"
      using extends_trans [OF e1 extends_invoke [of "TabsQuery (win_id win)" w1 "tabs_query ad (win_id win)"]] q
      by simp
    show ?thesis
    proof (cases r2)
      case (Inl err)
      then show ?thesis using g Inr q e2 by (simp add: undo_window_def)
    next
      case r2: (Inr currentTabs)
      let ?w3 = "fold (ungroup_tab ad) currentTabs w2"
      let ?w4 = "snd (invoke (SetTimeout 100) (setTimeout ad 100) ?w3)"
      have "extends w2 ?w3" by (rule extends_fold) (rule ungroup_tab_extends)
      moreover have "extends ?w3 ?w4" by (simp add: extends_invoke)
      moreover have "extends ?w4 (snd (recreate_groups ad (win_id win) ws (ws_groups ws) ?w4))"
        by (rule recreate_groups_extends)
      ultimately have "extends w (snd (recreate_groups ad (win_id win) ws (ws_groups ws) ?w4))"
        using e2 extends_trans by blast
      then show ?thesis using g Inr q r2 by (simp add: undo_window_def Let_def)
    qed
  qed
qed

lemma undo_windows_extends: "extends w (snd (undo_windows ad wss w))"
proof (induction wss arbitrary: w)
  case Nil
  show ?case by simp
next
  case (Cons ws wss)
  obtain r w1 where u: "undo_window ad ws w = (r, w1)" by (metis prod.collapse)
  have e1: "extends w w1" using undo_window_extends [of w ad ws] u by simp
  show ?case
    using u e1 extends_trans [OF e1 Cons.IH [of w1]] by (cases r) simp_all
qed

lemma undo_window_inline_extends: "extends w (undo_window_inline ad ws w)"
proof -
  obtain r w1 where g: "invoke (WindowsGet (ws_id ws)) (windows_get ad (ws_id ws)) w = (r, w1)"
    by (metis prod.collapse)
  have e1: "extends w w1"
    using extends_invoke [of "WindowsGet (ws_id ws)" w "windows_get ad (ws_id ws)"] g by simp
  show ?thesis
  proof (cases r)
    case (Inl err)
    then show ?thesis using g e1 by (simp add: undo_window_inline_def)
  next
    case (Inr win)
    obtain r2 w2 where q: "invoke (TabsQuery (win_id win)) (tabs_query ad (win_id win)) w1 = (r2, w2)"
      by (metis prod.collapse)
    have e2: "extends w w2"
      using extends_trans [OF e1 extends_invoke [of "TabsQuery (win_id win)" w1 "tabs_query ad (win_id win)"]] q
      by simp
    show ?thesis
    proof (cases r2)
      case (Inl err)
      then show ?thesis using g Inr q e2 by (simp add: undo_window_inline_def)
    next
      case r2: (Inr currentTabs)
      let ?w3 = "fold (ungroup_tab ad) currentTabs w2"
      let ?w4 = "snd (invoke (SetTimeout 100) (setTimeout ad 100) ?w3)"
      let ?w5 = "fold (\<lambda>g w'. snd (recreate_group ad (win_id win) ws g w')) (ws_groups ws) ?w4"
      have "extends w2 ?w3" by (rule extends_fold) (rule ungroup_tab_extends)
      moreover have "extends ?w3 ?w4" by (simp add: extends_invoke)
      moreover have "extends ?w4 ?w5" by (rule extends_fold) (rule recreate_group_extends)
      ultimately have "extends w ?w5" using e2 extends_trans by blast
      then show ?thesis using g Inr q r2 by (simp add: undo_window_inline_def Let_def)
    qed
  qed
qed

text \<open>The first two steps of an undo with working storage: read the history, write it shortened.\<close>

lemma pop_history:
  assumes ok: "storage_reliable ad"
  shows "\<exists>w1 w2. storage_get_undoHistory ad w = (Inr (undoHistory (store w)), w1)
           \<and> storage_set_undoHistory ad v w1 = (Inr (), w2)
           \<and> undo_history w2 = v
           \<and> calls w2 = calls w @ [StorageGet K_undoHistory, StorageSet K_undoHistory]"
proof -
  obtain r w1 where g: "storage_get_undoHistory ad w = (r, w1)" by (metis prod.collapse)
  have r: "r = Inr (undoHistory (store w))" using storage_get_undoHistory_ok(1) [OF ok, of w] g by simp
  have c1: "calls w1 = calls w @ [StorageGet K_undoHistory]"
    using g by (auto simp: storage_get_undoHistory_def invoke_def split: prod.splits option.splits)
  obtain r2 w2 where s: "storage_set_undoHistory ad v w1 = (r2, w2)" by (metis prod.collapse)
  have r2: "r2 = Inr ()" and h2: "undo_history w2 = v"
    using storage_set_undoHistory_ok [OF ok, of v w1] s by simp_all
  have c2: "calls w2 = calls w1 @ [StorageSet K_undoHistory]"
    using s by (auto simp: storage_set_undoHistory_def invoke_def split: prod.splits option.splits)
  show ?thesis using g r s r2 h2 c1 c2 by simp
qed

text \<open>
  Claim C10. With working storage and a non-empty history, \<open>performUndo\<close> and
  \<open>undoLastActionInline\<close> first read the history and write it back without its last
  entry, and only then replay: every later call comes after that write and none of them
  writes to storage, so the persisted history is the shortened one whatever the replay
  does and whatever the undo returns.
\<close>

theorem undo_consumes_entry_before_replay:
  assumes ok: "storage_reliable ad" and ne: "undo_history w \<noteq> []"
  shows "undo_history (snd (performUndo ad w)) = butlast (undo_history w)
       \<and> (\<exists>cs. calls (snd (performUndo ad w))
                 = calls w @ [StorageGet K_undoHistory, StorageSet K_undoHistory] @ cs
               \<and> filter storage_write cs = [])
       \<and> undo_history (snd (undoLastActionInline ad w)) = butlast (undo_history w)
       \<and> (\<exists>cs. calls (snd (undoLastActionInline ad w))
                 = calls w @ [StorageGet K_undoHistory, StorageSet K_undoHistory] @ cs
               \<and> filter storage_write cs = [])"
proof -
  let ?h = "undo_history w"
  from pop_history [OF ok, of w "butlast ?h"] obtain w1 w2 where
    g: "storage_get_undoHistory ad w = (Inr (undoHistory (store w)), w1)"
    and s: "storage_set_undoHistory ad (butlast ?h) w1 = (Inr (), w2)"
    and h2: "undo_history w2 = butlast ?h"
    and c2: "calls w2 = calls w @ [StorageGet K_undoHistory, StorageSet K_undoHistory]" by blast
  have len: "length ?h \<noteq> 0" using ne by simp
  have fin: "undo_history w' = butlast ?h \<and>
        (\<exists>cs. calls w' = calls w @ [StorageGet K_undoHistory, StorageSet K_undoHistory] @ cs
              \<and> filter storage_write cs = [])" if "extends w2 w'" for w'
    using that h2 c2 by (auto simp: extends_def undo_history_def)
  obtain r3 w3 where u: "undo_windows ad (ue_previousGroups (last ?h)) w2 = (r3, w3)"
    by (metis prod.collapse)
  have e3: "extends w2 w3" using undo_windows_extends [of w2 ad "ue_previousGroups (last ?h)"] u by simp
  have e4: "extends w2 (snd (invoke LoadActiveGroups (loadActiveGroups ad) w3))"
    using extends_trans [OF e3 extends_invoke [of LoadActiveGroups w3 "loadActiveGroups ad"]] by simp
  have "extends w2 (snd (performUndo ad w))"
    using g s len u e3 e4
    by (cases r3) (simp_all add: performUndo_def Let_def undo_history_def [symmetric])
  moreover have "extends w2 (fold (undo_window_inline ad) (ue_previousGroups (last ?h)) w2)"
    by (rule extends_fold) (rule undo_window_inline_extends)
  then have "extends w2 (snd (undoLastActionInline ad w))"
    using g s len
    by (simp add: undoLastActionInline_def restoreUndoStateInline_def Let_def undo_history_def [symmetric])
  ultimately show ?thesis using fin by blast
qed

subsection \<open>Undo: an example\<close>

theorem undo_consumes_entry_before_replay_witness:
  "storage_reliable ex_chrome_query_fails
   \<and> undo_history ex_undo_world = [ex_entry ''group-by-domain'' 1, ex_entry ''ungroup-all'' 2]
   \<and> fst (performUndo ex_chrome_query_fails ex_undo_world) = False
   \<and> undo_history (snd (performUndo ex_chrome_query_fails ex_undo_world)) = [ex_entry ''group-by-domain'' 1]
   \<and> calls (snd (performUndo ex_chrome_query_fails ex_undo_world))
       = [StorageGet K_undoHistory, StorageSet K_undoHistory,
          WindowsGet 10, TabsQuery 10, TabsUngroup [11], SetTimeout 100,
          TabsQuery 10, TabsGroup [11], TabGroupsUpdate 100,
          WindowsGet 20, TabsQuery 20]
   \<and> undo_history (snd (undoLastActionInline ex_chrome_query_fails ex_undo_world))
       = [ex_entry ''group-by-domain'' 1]"
proof -
  have ok: "storage_reliable ex_chrome_query_fails"
    by (simp add: storage_reliable_def ex_chrome_query_fails_def sim_chrome_def)
  have h: "undo_history ex_undo_world = [ex_entry ''group-by-domain'' 1, ex_entry ''ungroup-all'' 2]"
    by (simp add: undo_history_def ex_undo_world_def or_empty_def)
  then have ne: "undo_history ex_undo_world \<noteq> []" by simp
  have f: "fst (performUndo ex_chrome_query_fails ex_undo_world) = False" by code_simp
  have c: "calls (snd (performUndo ex_chrome_query_fails ex_undo_world))
       = [StorageGet K_undoHistory, StorageSet K_undoHistory,
          WindowsGet 10, TabsQuery 10, TabsUngroup [11], SetTimeout 100,
          TabsQuery 10, TabsGroup [11], TabGroupsUpdate 100,
          WindowsGet 20, TabsQuery 20]" by code_simp
  from undo_consumes_entry_before_replay [OF ok ne] ok h f c show ?thesis by simp
qed

subsection \<open>Restore: failures\<close>

lemma restore_window_skipped:
  "restorable_urls windowData = [] \<Longrightarrow> restore_window ad session windowData w = Some (Inr (), w)"
  by (simp add: restore_window_def)

lemma restore_window_create_fails:
  assumes "restorable_urls windowData = url # urls" "fst (windows_create ad url (live w)) = Inl err"
  shows "restore_window ad session windowData w
           = Some (Inl err, snd (invoke (WindowsCreate url) (windows_create ad url) w))"
proof -
  obtain r w1 where i: "invoke (WindowsCreate url) (windows_create ad url) w = (r, w1)"
    by (metis prod.collapse)
  have "r = Inl err" using i assms(2) invoke_fst [of "WindowsCreate url" "windows_create ad url" w] by simp
  then show ?thesis using i assms(1) by (simp add: restore_window_def)
qed

lemma restoreSession_messages:
  assumes "restoreSession ad sid w = Some (Inl msg, w')"
  shows "str_includes msg ''Session not found'' \<or> str_includes msg ''Invalid''
           \<or> str_includes msg ''Failed to restore''"
proof -
  have m: "str_includes MSG_restore_failed ''Failed to restore''" by code_simp
  show ?thesis
  proof (cases "restoreSession_body ad sid w")
    case None
    then show ?thesis using assms by (simp add: restoreSession_def)
  next
    case (Some p)
    obtain r w1 where p: "p = (r, w1)" by (metis prod.collapse)
    show ?thesis
      using assms Some p m
      by (cases r) (auto simp: restoreSession_def split: if_splits)
  qed
qed

lemma restore_windows_append:
  "restore_windows ad session pre w = Some (Inr (), w2) \<Longrightarrow>
   restore_windows ad session (pre @ rest) w = restore_windows ad session rest w2"
proof (induction pre arbitrary: w)
  case Nil
  then show ?case by simp
next
  case (Cons windowData pre)
  show ?case
  proof (cases "restore_window ad session windowData w")
    case None
    then show ?thesis using Cons.prems by simp
  next
    case (Some p)
    obtain r w1 where p: "p = (r, w1)" by (metis prod.collapse)
    show ?thesis
    proof (cases r)
      case (Inl err)
      then show ?thesis using Cons.prems Some p by simp
    next
      case (Inr u)
      then have "restore_windows ad session pre w1 = Some (Inr (), w2)"
        using Cons.prems Some p by simp
      from Cons.IH [OF this] show ?thesis using Some p Inr by simp
    qed
  qed
qed

lemma restoreSession_windows:
  assumes "find (\<lambda>s. s_id s = sid) (fst (getAllSessions ad w)) = Some session" "validateSession session"
  shows "restoreSession ad sid w =
     (case restore_windows ad session (s_windows session) (snd (getAllSessions ad w)) of
        None \<Rightarrow> None
      | Some (Inl err, w3) \<Rightarrow>
          Some (Inl (if str_includes err ''Session not found'' \<or> str_includes err ''Invalid''
                          \<or> str_includes err ''Failed to restore'' then err else MSG_restore_failed), w3)
      | Some (Inr u, w3) \<Rightarrow> Some (Inr u, w3))"
proof -
  obtain allSessions w1 where g: "getAllSessions ad w = (allSessions, w1)" by (metis prod.collapse)
  have "restoreSession_body ad sid w = restore_windows ad session (s_windows session) w1"
    using assms g by (simp add: restoreSession_body_def)
  then show ?thesis
    using g by (auto simp: restoreSession_def split: option.splits sum.splits prod.splits)
qed

lemma restoreSession_create_fails:
  assumes f: "find (\<lambda>s. s_id s = sid) (fst (getAllSessions ad w)) = Some session" and v: "validateSession session"
    and ws: "s_windows session = pre @ windowData # rest"
    and pre: "restore_windows ad session pre (snd (getAllSessions ad w)) = Some (Inr (), w2)"
    and u: "restorable_urls windowData = url # urls"
    and c: "fst (windows_create ad url (live w2)) = Inl err"
  shows "restoreSession ad sid w =
     Some (Inl (if str_includes err ''Session not found'' \<or> str_includes err ''Invalid''
                     \<or> str_includes err ''Failed to restore'' then err else MSG_restore_failed),
           snd (invoke (WindowsCreate url) (windows_create ad url) w2))"
proof -
  have "restore_windows ad session (s_windows session) (snd (getAllSessions ad w))
          = restore_windows ad session (windowData # rest) w2"
    using restore_windows_append [OF pre, of "windowData # rest"] ws by simp
  also have "\<dots> = Some (Inl err, snd (invoke (WindowsCreate url) (windows_create ad url) w2))"
    using restore_window_create_fails [OF u c, of session] by simp
  finally show ?thesis using restoreSession_windows [OF f v] by simp
qed

text \<open>
  Claim C2, amended. \<open>restoreSession\<close> fails with \<open>Session not found\<close> when the id does not
  resolve and with \<open>Invalid or empty session\<close> when validation fails, in both cases after
  one read of the stored list and before any call that changes the live environment. A
  recorded window with no restorable URL is skipped without any call. But a failure of
  \<open>chrome.windows.create\<close> for a window is not isolated: it ends the loop over the
  windows, and \<open>restoreSession\<close> itself fails, for a session that is found and valid and
  after every window recorded before the failing one has been restored; the world it
  leaves is the one reached by those windows and the rejected call. Whatever makes the
  loop over the windows fail makes \<open>restoreSession\<close> fail, and \<open>restoreSession\<close> succeeds
  when the loop does. Every failure carries one of the three messages the outer \<open>catch\<close>
  lets through: an error of the environment that has none of them is replaced by
  \<open>Failed to restore session. Some tabs may be unavailable.\<close>
\<close>

theorem restore_failure_semantics:
  "(find (\<lambda>s. s_id s = sid) (fst (getAllSessions ad w)) = None \<longrightarrow>
      restoreSession ad sid w = Some (Inl MSG_not_found, snd (getAllSessions ad w)))
   \<and> (find (\<lambda>s. s_id s = sid) (fst (getAllSessions ad w)) = Some session \<and> \<not> validateSession session \<longrightarrow>
      restoreSession ad sid w = Some (Inl MSG_invalid, snd (getAllSessions ad w)))
   \<and> filter mutating (calls (snd (getAllSessions ad w))) = filter mutating (calls w)
   \<and> (restorable_urls windowData = [] \<longrightarrow>
        restore_window ad session' windowData w = Some (Inr (), w)
        \<and> restore_windows ad session' (windowData # rest) w = restore_windows ad session' rest w)
   \<and> (restorable_urls windowData = url # urls \<and> fst (windows_create ad url (live w)) = Inl err \<longrightarrow>
        restore_windows ad session' (windowData # rest) w
          = Some (Inl err, snd (invoke (WindowsCreate url) (windows_create ad url) w)))
   \<and> (restoreSession ad sid w = Some (Inl msg, w') \<longrightarrow>
        str_includes msg ''Session not found'' \<or> str_includes msg ''Invalid''
          \<or> str_includes msg ''Failed to restore'')
   \<and> (find (\<lambda>s. s_id s = sid) (fst (getAllSessions ad w)) = Some valid \<and> validateSession valid
       \<and> s_windows valid = pre @ failing # later
       \<and> restore_windows ad valid pre (snd (getAllSessions ad w)) = Some (Inr (), w2)
       \<and> restorable_urls failing = url2 # urls2
       \<and> fst (windows_create ad url2 (live w2)) = Inl err2 \<longrightarrow>
        restoreSession ad sid w =
          Some (Inl (if str_includes err2 ''Session not found'' \<or> str_includes err2 ''Invalid''
                          \<or> str_includes err2 ''Failed to restore'' then err2 else MSG_restore_failed),
                snd (invoke (WindowsCreate url2) (windows_create ad url2) w2)))
   \<and> (find (\<lambda>s. s_id s = sid) (fst (getAllSessions ad w)) = Some valid \<and> validateSession valid
       \<and> restore_windows ad valid (s_windows valid) (snd (getAllSessions ad w)) = Some (Inl err3, w3) \<longrightarrow>
        restoreSession ad sid w =
          Some (Inl (if str_includes err3 ''Session not found'' \<or> str_includes err3 ''Invalid''
                          \<or> str_includes err3 ''Failed to restore'' then err3 else MSG_restore_failed), w3))
   \<and> (find (\<lambda>s. s_id s = sid) (fst (getAllSessions ad w)) = Some valid \<and> validateSession valid
       \<and> restore_windows ad valid (s_windows valid) (snd (getAllSessions ad w)) = Some (Inr (), w3) \<longrightarrow>
        restoreSession ad sid w = Some (Inr (), w3))"
proof -
  have 1: "restoreSession ad sid w = Some (Inl MSG_not_found, snd (getAllSessions ad w))"
    if "find (\<lambda>s. s_id s = sid) (fst (getAllSessions ad w)) = None"
    using that by (rule restoreSession_not_found)
  have 2: "restoreSession ad sid w = Some (Inl MSG_invalid, snd (getAllSessions ad w))"
    if "find (\<lambda>s. s_id s = sid) (fst (getAllSessions ad w)) = Some session" "\<not> validateSession session"
    using that by (rule restoreSession_invalid)
  have 3: "filter mutating (calls (snd (getAllSessions ad w))) = filter mutating (calls w)"
    by (simp add: getAllSessions_frame)
  have 4: "restore_window ad session' windowData w = Some (Inr (), w)
        \<and> restore_windows ad session' (windowData # rest) w = restore_windows ad session' rest w"
    if "restorable_urls windowData = []"
    using restore_window_skipped [OF that, of ad session' w] by simp
  have 5: "restore_windows ad session' (windowData # rest) w
          = Some (Inl err, snd (invoke (WindowsCreate url) (windows_create ad url) w))"
    if "restorable_urls windowData = url # urls" "fst (windows_create ad url (live w)) = Inl err"
    using restore_window_create_fails [OF that, of session'] by simp
  have 6: "str_includes msg ''Session not found'' \<or> str_includes msg ''Invalid''
          \<or> str_includes msg ''Failed to restore''"
    if "restoreSession ad sid w = Some (Inl msg, w')"
    using that by (rule restoreSession_messages)
  have 7: "restoreSession ad sid w =
          Some (Inl (if str_includes err2 ''Session not found'' \<or> str_includes err2 ''Invalid''
                          \<or> str_includes err2 ''Failed to restore'' then err2 else MSG_restore_failed),
                snd (invoke (WindowsCreate url2) (windows_create ad url2) w2))"
    if "find (\<lambda>s. s_id s = sid) (fst (getAllSessions ad w)) = Some valid" "validateSession valid"
       "s_windows valid = pre @ failing # later"
       "restore_windows ad valid pre (snd (getAllSessions ad w)) = Some (Inr (), w2)"
       "restorable_urls failing = url2 # urls2"
       "fst (windows_create ad url2 (live w2)) = Inl err2"
    using that by (rule restoreSession_create_fails)
  have 8: "restoreSession ad sid w =
          Some (Inl (if str_includes err3 ''Session not found'' \<or> str_includes err3 ''Invalid''
                          \<or> str_includes err3 ''Failed to restore'' then err3 else MSG_restore_failed), w3)"
    if "find (\<lambda>s. s_id s = sid) (fst (getAllSessions ad w)) = Some valid" "validateSession valid"
       "restore_windows ad valid (s_windows valid) (snd (getAllSessions ad w)) = Some (Inl err3, w3)"
    using restoreSession_windows [OF that(1,2)] that(3) by simp
  have 9: "restoreSession ad sid w = Some (Inr (), w3)"
    if "find (\<lambda>s. s_id s = sid) (fst (getAllSessions ad w)) = Some valid" "validateSession valid"
       "restore_windows ad valid (s_windows valid) (snd (getAllSessions ad w)) = Some (Inr (), w3)"
    using restoreSession_windows [OF that(1,2)] that(3) by simp
  show ?thesis
    apply (intro conjI impI)
    subgoal by (rule 1)
    subgoal by (rule 2) (elim conjE, assumption)+
    subgoal by (rule 3)
    subgoal using 4 by blast
    subgoal using 4 by blast
    subgoal using 5 by blast
    subgoal by (rule 6)
    subgoal by (rule 7) (elim conjE, assumption)+
    subgoal by (rule 8) (elim conjE, assumption)+
    subgoal by (rule 9) (elim conjE, assumption)+
    done
qed

theorem restore_failure_semantics_witness:
  "restoreSession sim_chrome ''no such id'' ex_sessions_world
     = Some (Inl MSG_not_found, snd (getAllSessions sim_chrome ex_sessions_world))
   \<and> restoreSession sim_chrome ''1700000000000'' ex_sessions_world
     = Some (Inl MSG_invalid, snd (getAllSessions sim_chrome ex_sessions_world))
   \<and> filter mutating (calls (snd (getAllSessions sim_chrome ex_sessions_world))) = []
   \<and> restore_windows sim_chrome ex_mixed_session (s_windows ex_mixed_session) ex_sessions_world
     = restore_windows sim_chrome ex_mixed_session (tl (s_windows ex_mixed_session)) ex_sessions_world
   \<and> fst (the (restoreSession sim_chrome ''8'' ex_sessions_world)) = Inr ()
   \<and> filter mutating (calls (snd (the (restoreSession sim_chrome ''8'' ex_sessions_world))))
     = [WindowsCreate ''https://b.example/'']
   \<and> fst (the (restore_windows sim_chrome ex_two_windows (tl (s_windows ex_two_windows))
               (snd (the (restore_window sim_chrome ex_two_windows (hd (s_windows ex_two_windows))
                  ex_restore_world)))))
     = Inl ''Cannot create window''
   \<and> fst (the (restoreSession sim_chrome ''7'' ex_restore_world)) = Inl MSG_restore_failed
   \<and> str_includes MSG_restore_failed ''Failed to restore''
   \<and> find (\<lambda>s. s_id s = ''7'') (fst (getAllSessions sim_chrome ex_restore_world)) = Some ex_two_windows
   \<and> validateSession ex_two_windows
   \<and> restoreSession sim_chrome ''7'' ex_restore_world
     = Some (Inl MSG_restore_failed,
             snd (invoke (WindowsCreate ''https://b.example/'')
                    (windows_create sim_chrome ''https://b.example/'')
                    (snd (the (restore_windows sim_chrome ex_two_windows [hd (s_windows ex_two_windows)]
                                 (snd (getAllSessions sim_chrome ex_restore_world)))))))
   \<and> map win_id (sim_windows (live (snd (the (restore_windows sim_chrome ex_two_windows
         [hd (s_windows ex_two_windows)] (snd (getAllSessions sim_chrome ex_restore_world))))))) = [1]
   \<and> restoreSession sim_chrome ''8'' ex_sessions_world
     = Some (Inr (), snd (the (restore_windows sim_chrome ex_mixed_session (s_windows ex_mixed_session)
                                 (snd (getAllSessions sim_chrome ex_sessions_world)))))"
proof -
  let ?W = "ex_sessions_world"
  have n: "find (\<lambda>s. s_id s = ''no such id'') (fst (getAllSessions sim_chrome ?W)) = None"
    by code_simp
  have i: "find (\<lambda>s. s_id s = ''1700000000000'') (fst (getAllSessions sim_chrome ?W))
             = Some (ex_empty_snapshot ''Empty'')" "\<not> validateSession (ex_empty_snapshot ''Empty'')"
    by code_simp+
  have c: "calls ?W = []" by code_simp
  have k: "restorable_urls (hd (s_windows ex_mixed_session)) = []"
          "s_windows ex_mixed_session = hd (s_windows ex_mixed_session) # tl (s_windows ex_mixed_session)"
    by code_simp+
  have r8: "fst (the (restoreSession sim_chrome ''8'' ?W)) = Inr ()"
     "filter mutating (calls (snd (the (restoreSession sim_chrome ''8'' ?W)))) = [WindowsCreate ''https://b.example/'']"
    by code_simp+
  let ?V = "snd (the (restore_window sim_chrome ex_two_windows (hd (s_windows ex_two_windows)) ex_restore_world))"
  have f: "restorable_urls (hd (tl (s_windows ex_two_windows))) = [''https://b.example/'']"
     "fst (windows_create sim_chrome ''https://b.example/'' (live ?V)) = Inl ''Cannot create window''"
     "tl (s_windows ex_two_windows) = [hd (tl (s_windows ex_two_windows))]"
    by code_simp+
  have r7: "restoreSession sim_chrome ''7'' ex_restore_world \<noteq> None"
      "fst (the (restoreSession sim_chrome ''7'' ex_restore_world)) = Inl MSG_restore_failed"
    by code_simp+
  note A = restore_failure_semantics [of "''no such id''" sim_chrome ?W]
  note B = restore_failure_semantics [of "''1700000000000''" sim_chrome ?W "ex_empty_snapshot ''Empty''"
      "hd (s_windows ex_mixed_session)" ex_mixed_session "tl (s_windows ex_mixed_session)"]
  note C = restore_failure_semantics [of _ sim_chrome ?V _ "hd (tl (s_windows ex_two_windows))"
      ex_two_windows "[]" "''https://b.example/''" "[]" "''Cannot create window''"]
  have a: "restoreSession sim_chrome ''no such id'' ?W = Some (Inl MSG_not_found, snd (getAllSessions sim_chrome ?W))"
    using A n by blast
  have b: "restoreSession sim_chrome ''1700000000000'' ?W = Some (Inl MSG_invalid, snd (getAllSessions sim_chrome ?W))"
    using B i by blast
  have m: "filter mutating (calls (snd (getAllSessions sim_chrome ?W))) = []"
    using B c by simp
  have s: "restore_windows sim_chrome ex_mixed_session (s_windows ex_mixed_session) ?W
     = restore_windows sim_chrome ex_mixed_session (tl (s_windows ex_mixed_session)) ?W"
    using B k by metis
  have e: "fst (the (restore_windows sim_chrome ex_two_windows (tl (s_windows ex_two_windows)) ?V))
     = Inl ''Cannot create window''"
    using C f by (metis fst_conv option.sel)
  have g: "str_includes MSG_restore_failed ''Failed to restore''" by code_simp
  let ?R = "ex_restore_world"
  let ?P = "restore_windows sim_chrome ex_two_windows [hd (s_windows ex_two_windows)]
              (snd (getAllSessions sim_chrome ?R))"
  have d1: "find (\<lambda>s. s_id s = ''7'') (fst (getAllSessions sim_chrome ?R)) = Some ex_two_windows"
    by code_simp
  have d2: "validateSession ex_two_windows" by code_simp
  have d3: "s_windows ex_two_windows = [hd (s_windows ex_two_windows)] @ hd (tl (s_windows ex_two_windows)) # []"
    by code_simp
  have d4: "?P \<noteq> None" "fst (the ?P) = Inr ()" by code_simp+
  then have d5: "?P = Some (Inr (), snd (the ?P))"
    by (metis option.collapse prod.collapse)
  have d6: "fst (windows_create sim_chrome ''https://b.example/'' (live (snd (the ?P)))) = Inl ''Cannot create window''"
    by code_simp
  have d7: "\<not> (str_includes ''Cannot create window'' ''Session not found''
              \<or> str_includes ''Cannot create window'' ''Invalid''
              \<or> str_includes ''Cannot create window'' ''Failed to restore'')"
    by code_simp
  have d8: "map win_id (sim_windows (live (snd (the ?P)))) = [1]" by code_simp
  note D = restore_failure_semantics [of "''7''" sim_chrome ?R _ _ _ _ _ _ _ _ _ ex_two_windows
      "[hd (s_windows ex_two_windows)]" "hd (tl (s_windows ex_two_windows))" "[]" "snd (the ?P)"
      "''https://b.example/''" "[]" "''Cannot create window''"]
  have h: "restoreSession sim_chrome ''7'' ?R
     = Some (Inl MSG_restore_failed,
             snd (invoke (WindowsCreate ''https://b.example/'')
                    (windows_create sim_chrome ''https://b.example/'') (snd (the ?P))))"
    using D d1 d2 d3 d5 f(1) d6 d7 by simp
  let ?Q = "restore_windows sim_chrome ex_mixed_session (s_windows ex_mixed_session)
              (snd (getAllSessions sim_chrome ?W))"
  have q1: "find (\<lambda>s. s_id s = ''8'') (fst (getAllSessions sim_chrome ?W)) = Some ex_mixed_session"
    "validateSession ex_mixed_session" by code_simp+
  have q2: "?Q \<noteq> None" "fst (the ?Q) = Inr ()" by code_simp+
  then have q3: "?Q = Some (Inr (), snd (the ?Q))"
    by (metis option.collapse prod.collapse)
  note E = restore_failure_semantics [of "''8''" sim_chrome ?W _ _ _ _ _ _ _ _ _ ex_mixed_session
      _ _ _ _ _ _ _ _ "snd (the ?Q)"]
  have j: "restoreSession sim_chrome ''8'' ?W = Some (Inr (), snd (the ?Q))"
    using E q1 q3 by blast
  from a b m s r8 e r7(2) g d1 d2 h d8 j show ?thesis by (intro conjI)
qed

end
